theory Spec2Isabelle
  imports Main "HOL-Library.AList" "HOL-Library.Multiset"
begin

section \<open>Library management: the two lending programs\<close>

text \<open>
  The repository holds two programs over the same domain. \<^verbatim>\<open>Web.py\<close> keeps one copy
  per book (a borrowed flag, a borrower and a due date) and a transaction history;
  \<^verbatim>\<open>app.py\<close> keeps a copy count per book and no history. Both are embedded here.
  Where the two files use the same name, the definitions taken from \<^verbatim>\<open>app.py\<close> carry
  the prefix \<open>app_\<close>.

  Python dictionaries are association lists with distinct keys, in insertion order
  (\<open>AList.update\<close> replaces the value of a present key in place and appends an absent
  one, as a \<^verbatim>\<open>dict\<close> does). An object stored in a dictionary and mutated in place is
  written back under its key. Writing the state to disk after an operation is not part
  of the model; reading it at start-up is (section \<open>Loading\<close>).
\<close>

subsection \<open>Strings\<close>

text \<open>
  A character is a code point below 256. On these, \<^verbatim>\<open>str.strip()\<close> removes the
  code points 9 to 13, 28 to 32, 133 and 160 from both ends, and \<^verbatim>\<open>str.lower()\<close>
  maps \<open>A\<close>..\<open>Z\<close> and the upper-case letters 192..222 (without 215) to the code point
  32 above.
\<close>

definition isspace :: "char \<Rightarrow> bool" where
  "isspace c = (of_char c \<in> {9, 10, 11, 12, 13, 28, 29, 30, 31, 32, 133, 160 :: nat})"

definition strip :: "string \<Rightarrow> string" where
  "strip s = rev (dropWhile isspace (rev (dropWhile isspace s)))"

definition lower_char :: "char \<Rightarrow> char" where
  "lower_char c =
     (let n = of_char c :: nat
      in if (65 \<le> n \<and> n \<le> 90) \<or> (192 \<le> n \<and> n \<le> 222 \<and> n \<noteq> 215)
         then char_of (n + 32) else c)"

definition lower :: "string \<Rightarrow> string" where
  "lower s = map lower_char s"

subsection \<open>Dates\<close>

text \<open>
  A \<^verbatim>\<open>datetime\<close> is a number of microseconds on the naive time line, and
  \<^verbatim>\<open>timedelta.days\<close> is the floor of a difference divided by one day. A date text is
  stored as what \<^verbatim>\<open>strptime\<close> with \<^verbatim>\<open>DATE_FMT = "%Y-%m-%d %H:%M"\<close> makes of it:
  \<open>Minute m\<close> is a text of that format naming the minute \<open>m\<close>, \<open>Unparsable s\<close> is any
  other text \<open>s\<close>, on which \<^verbatim>\<open>strptime\<close> raises. \<^verbatim>\<open>strftime\<close> with that format
  drops the seconds and microseconds.
\<close>

type_synonym datetime = int

datatype date_text = Minute int | Unparsable string

definition minute_us :: int where
  "minute_us = 60000000"

definition day_us :: int where
  "day_us = 86400000000"

definition timedelta_days :: "int \<Rightarrow> int" where
  "timedelta_days n = n * day_us"

definition days :: "int \<Rightarrow> int" where
  "days delta = delta div day_us"

definition strftime :: "datetime \<Rightarrow> date_text" where
  "strftime t = Minute (t div minute_us)"

fun strptime :: "date_text \<Rightarrow> datetime option" where
  "strptime (Minute m) = Some (m * minute_us)"
| "strptime (Unparsable s) = None"

text \<open>Truth value of an optional text: \<^verbatim>\<open>None\<close> and the empty text are false.\<close>

fun truthy :: "date_text option \<Rightarrow> bool" where
  "truthy None = False"
| "truthy (Some (Unparsable s)) = (s \<noteq> [])"
| "truthy (Some (Minute m)) = True"

section \<open>Web.py: one copy per book, with history\<close>

subsection \<open>Models\<close>

record Book =
  book_id :: string
  title :: string
  author :: string
  is_borrowed :: bool
  borrower_id :: "string option"
  due_date :: "date_text option"

record Member =
  member_id :: string
  name :: string
  borrowed_book_ids :: "string list"

text \<open>
  A history entry is a dictionary with the keys \<^verbatim>\<open>timestamp\<close>, \<^verbatim>\<open>action\<close>,
  \<^verbatim>\<open>book_id\<close>, \<^verbatim>\<open>member_id\<close> and either \<^verbatim>\<open>due_date\<close> (borrow) or \<^verbatim>\<open>fine\<close>
  (return).
\<close>

datatype entry =
  Borrow_entry date_text string string date_text
| Return_entry date_text string string int

record Library =
  books :: "(string \<times> Book) list"
  members :: "(string \<times> Member) list"
  history :: "entry list"

definition new_Book :: "string \<Rightarrow> string \<Rightarrow> string \<Rightarrow> Book" where
  "new_Book bid t a =
     \<lparr>book_id = bid, title = t, author = a, is_borrowed = False,
      borrower_id = None, due_date = None\<rparr>"

definition new_Member :: "string \<Rightarrow> string \<Rightarrow> Member" where
  "new_Member mid n = \<lparr>member_id = mid, name = n, borrowed_book_ids = []\<rparr>"

definition empty_Library :: Library where
  "empty_Library = \<lparr>books = [], members = [], history = []\<rparr>"

subsection \<open>Results\<close>

text \<open>
  Every operation of \<^verbatim>\<open>Web.py\<close> returns a success flag and a message. The messages
  are: "Book ID already exists.", "Member ID already exists.", "Member not found.",
  "Book not found.", "Book already borrowed.", "This member does not hold that book.",
  "Book added.", "Member added.", the borrow message (member name, title, due date) and
  the return message (title, fine).
\<close>

datatype message =
  Book_ID_already_exists
| Member_ID_already_exists
| Member_not_found
| Book_not_found
| Book_already_borrowed
| Member_does_not_hold_that_book
| Book_added
| Member_added
| Borrowed string string date_text
| Returned string int

type_synonym result = "bool \<times> message"

subsection \<open>Helpers\<close>

definition find_book_by_title_ci :: "Library \<Rightarrow> string \<Rightarrow> (string \<times> Book) option" where
  "find_book_by_title_ci s t =
     (let q = lower (strip t) in find (\<lambda>(k, b). lower (title b) = q) (books s))"

definition find_member_by_name_ci :: "Library \<Rightarrow> string \<Rightarrow> (string \<times> Member) option" where
  "find_member_by_name_ci s n =
     (let q = lower (strip n) in find (\<lambda>(k, m). lower (name m) = q) (members s))"

text \<open>
  The first two statements of \<^verbatim>\<open>borrow_book\<close> and of \<^verbatim>\<open>return_book\<close>: the member
  and the book, by name or title when the flag is set and by key otherwise, each with
  the key it is stored under.
\<close>

definition resolve_member :: "Library \<Rightarrow> string \<Rightarrow> bool \<Rightarrow> (string \<times> Member) option" where
  "resolve_member s member_key by_name =
     (if by_name then find_member_by_name_ci s member_key
      else map_option (Pair member_key) (map_of (members s) member_key))"

definition resolve_book :: "Library \<Rightarrow> string \<Rightarrow> bool \<Rightarrow> (string \<times> Book) option" where
  "resolve_book s book_key by_title =
     (if by_title then find_book_by_title_ci s book_key
      else map_option (Pair book_key) (map_of (books s) book_key))"

subsection \<open>Core operations\<close>

definition add_book :: "Library \<Rightarrow> string \<Rightarrow> string \<Rightarrow> string \<Rightarrow> result \<times> Library" where
  "add_book s bid t a =
     (if map_of (books s) bid \<noteq> None then ((False, Book_ID_already_exists), s)
      else ((True, Book_added),
            s\<lparr>books := AList.update bid (new_Book bid (strip t) (strip a)) (books s)\<rparr>))"

definition add_member :: "Library \<Rightarrow> string \<Rightarrow> string \<Rightarrow> result \<times> Library" where
  "add_member s mid n =
     (if map_of (members s) mid \<noteq> None then ((False, Member_ID_already_exists), s)
      else ((True, Member_added),
            s\<lparr>members := AList.update mid (new_Member mid (strip n)) (members s)\<rparr>))"

text \<open>
  \<^verbatim>\<open>borrow_book\<close> reads the clock twice: \<open>now\<close> for the due date and \<open>stamp\<close> for the
  timestamp of the history entry. So does \<^verbatim>\<open>return_book\<close>, for the fine and for the
  timestamp.
\<close>

definition borrow_book ::
  "Library \<Rightarrow> datetime \<Rightarrow> datetime \<Rightarrow> string \<Rightarrow> string \<Rightarrow> bool \<Rightarrow> bool \<Rightarrow> result \<times> Library" where
  "borrow_book s now stamp member_key book_key by_title by_name =
     (case resolve_member s member_key by_name of
        None \<Rightarrow> ((False, Member_not_found), s)
      | Some (mk, m) \<Rightarrow>
     (case resolve_book s book_key by_title of
        None \<Rightarrow> ((False, Book_not_found), s)
      | Some (bk, b) \<Rightarrow>
          if is_borrowed b then ((False, Book_already_borrowed), s)
          else
            let due = strftime (now + timedelta_days 7);
                b' = b\<lparr>is_borrowed := True, borrower_id := Some (member_id m),
                       due_date := Some due\<rparr>;
                m' = m\<lparr>borrowed_book_ids := borrowed_book_ids m @ [book_id b']\<rparr>;
                e = Borrow_entry (strftime stamp) (book_id b') (member_id m') due
            in ((True, Borrowed (name m') (title b') due),
                s\<lparr>books := AList.update bk b' (books s),
                  members := AList.update mk m' (members s),
                  history := history s @ [e]\<rparr>)))"

text \<open>The block of \<^verbatim>\<open>return_book\<close> under the comment "Fine calculation".\<close>

definition fine_calculation :: "datetime \<Rightarrow> date_text option \<Rightarrow> int" where
  "fine_calculation now dd =
     (case dd of
        None \<Rightarrow> 0
      | Some dtext \<Rightarrow>
          if truthy dd then
            (case strptime dtext of
               None \<Rightarrow> 0
             | Some due \<Rightarrow>
                 let late_days = days (now - due)
                 in if late_days > 0 then late_days * 10 else 0)
          else 0)"

definition return_book ::
  "Library \<Rightarrow> datetime \<Rightarrow> datetime \<Rightarrow> string \<Rightarrow> string \<Rightarrow> bool \<Rightarrow> bool \<Rightarrow> result \<times> Library" where
  "return_book s now stamp member_key book_key by_title by_name =
     (case resolve_member s member_key by_name of
        None \<Rightarrow> ((False, Member_not_found), s)
      | Some (mk, m) \<Rightarrow>
     (case resolve_book s book_key by_title of
        None \<Rightarrow> ((False, Book_not_found), s)
      | Some (bk, b) \<Rightarrow>
          if \<not> is_borrowed b \<or> borrower_id b \<noteq> Some (member_id m)
          then ((False, Member_does_not_hold_that_book), s)
          else
            let fine = fine_calculation now (due_date b);
                b' = b\<lparr>is_borrowed := False, borrower_id := None, due_date := None\<rparr>;
                m' = m\<lparr>borrowed_book_ids := remove1 (book_id b') (borrowed_book_ids m)\<rparr>;
                e = Return_entry (strftime stamp) (book_id b') (member_id m') fine
            in ((True, Returned (title b') fine),
                s\<lparr>books := AList.update bk b' (books s),
                  members := AList.update mk m' (members s),
                  history := history s @ [e]\<rparr>)))"

subsection \<open>Sequences of operations\<close>

datatype op =
  Add_book string string string
| Add_member string string
| Borrow_book datetime datetime string string bool bool
| Return_book datetime datetime string string bool bool

fun step :: "Library \<Rightarrow> op \<Rightarrow> result \<times> Library" where
  "step s (Add_book bid t a) = add_book s bid t a"
| "step s (Add_member mid n) = add_member s mid n"
| "step s (Borrow_book now stamp mkey bkey by_title by_name) =
     borrow_book s now stamp mkey bkey by_title by_name"
| "step s (Return_book now stamp mkey bkey by_title by_name) =
     return_book s now stamp mkey bkey by_title by_name"

fun run :: "Library \<Rightarrow> op list \<Rightarrow> Library" where
  "run s [] = s"
| "run s (x # xs) = run (snd (step s x)) xs"

fun is_lending :: "op \<Rightarrow> bool" where
  "is_lending (Borrow_book now stamp mkey bkey by_title by_name) = True"
| "is_lending (Return_book now stamp mkey bkey by_title by_name) = True"
| "is_lending x = False"

text \<open>The borrows and returns of a sequence that succeed, in the order they are made.\<close>

fun successes :: "Library \<Rightarrow> op list \<Rightarrow> op list" where
  "successes s [] = []"
| "successes s (x # xs) =
     (if is_lending x \<and> fst (fst (step s x)) then [x] else []) @ successes (snd (step s x)) xs"

text \<open>An entry is the record of an operation: same action, and the timestamp read by it.\<close>

fun records :: "entry \<Rightarrow> op \<Rightarrow> bool" where
  "records (Borrow_entry ts b m d) (Borrow_book now stamp mkey bkey by_title by_name) =
     (ts = strftime stamp \<and> d = strftime (now + timedelta_days 7))"
| "records (Return_entry ts b m f) (Return_book now stamp mkey bkey by_title by_name) =
     (ts = strftime stamp)"
| "records e x = False"

subsection \<open>Loading\<close>

text \<open>
  The texts of a JSON document are lists of code points, of any size, so that a text
  holding a lone surrogate can be written down. \<open>ascii\<close> gives the code points of a
  text of this theory.
\<close>

type_synonym unicode = "nat list"

definition ascii :: "string \<Rightarrow> unicode" where
  "ascii s = map of_char s"

text \<open>
  A value \<^verbatim>\<open>json.load\<close> returns: \<^verbatim>\<open>None\<close>, a \<^verbatim>\<open>bool\<close>, an \<^verbatim>\<open>int\<close>, a
  \<^verbatim>\<open>float\<close> (kept as the literal it was read from), a \<^verbatim>\<open>str\<close>, a \<^verbatim>\<open>list\<close>, or a
  \<^verbatim>\<open>dict\<close>, given by its items in insertion order, the keys distinct.
\<close>

datatype json =
  JNull
| JBool bool
| JInt int
| JFloat string
| JStr unicode
| JList "json list"
| JDict "(unicode \<times> json) list"

text \<open>
  What a load finds under a file name: no file; a file on which \<^verbatim>\<open>open\<close>, the read
  or \<^verbatim>\<open>json.load\<close> raises; or a file that \<^verbatim>\<open>json.load\<close> turns into a value.
\<close>

datatype store = Missing | Unreadable | Parsed json

text \<open>
  The exceptions \<^verbatim>\<open>app.py\<close> declares, and those of Python that a load meets.
  \<open>Reading_error\<close> is what \<^verbatim>\<open>open\<close>, the read or \<^verbatim>\<open>json.load\<close> raises on a file
  that is there (an \<^verbatim>\<open>OSError\<close>, a \<^verbatim>\<open>UnicodeDecodeError\<close>, a \<^verbatim>\<open>JSONDecodeError\<close>).
\<close>

datatype exception =
  BookNotFoundError
| AlreadyBorrowedError
| DatabaseError
| MemberNotFoundError
| Reading_error
| AttributeError
| TypeError
| KeyError
| UnicodeEncodeError

text \<open>\<^verbatim>\<open>d.get(k, default)\<close> on the items of a dictionary.\<close>

definition dict_get :: "(unicode \<times> json) list \<Rightarrow> unicode \<Rightarrow> json \<Rightarrow> json" where
  "dict_get d k dflt = (case map_of d k of None \<Rightarrow> dflt | Some v \<Rightarrow> v)"

text \<open>
  The keyword parameters of \<^verbatim>\<open>Book.__init__\<close> and \<^verbatim>\<open>Member.__init__\<close> of
  \<^verbatim>\<open>Web.py\<close>, and those without a default.
\<close>

definition Book_keywords :: "unicode list" where
  "Book_keywords =
     map ascii [''book_id'', ''title'', ''author'', ''is_borrowed'', ''borrower_id'', ''due_date'']"

definition Book_required :: "unicode list" where
  "Book_required = map ascii [''book_id'', ''title'', ''author'']"

definition Member_keywords :: "unicode list" where
  "Member_keywords = map ascii [''member_id'', ''name'', ''borrowed_book_ids'']"

definition Member_required :: "unicode list" where
  "Member_required = map ascii [''member_id'', ''name'']"

text \<open>
  The call \<^verbatim>\<open>Book(**v)\<close> or \<^verbatim>\<open>Member(**v)\<close>. It raises \<^verbatim>\<open>TypeError\<close> when \<open>v\<close> is
  no dictionary; at the first key, in the order of the dictionary, that is no keyword of
  the constructor (the key \<^verbatim>\<open>self\<close> is none either); and when a parameter without a
  default is not given. An exception comes with the text of the document that its
  message repeats: the rejected key, and nothing in the other cases. The constructors
  themselves accept every value, so the object made is given by its arguments.
\<close>

definition call_with ::
  "unicode list \<Rightarrow> unicode list \<Rightarrow> json \<Rightarrow> exception \<times> unicode + (unicode \<times> json) list" where
  "call_with keywords required v =
     (case v of
        JDict kw \<Rightarrow>
          (case find (\<lambda>(k, x). k \<notin> set keywords) kw of
             Some (k, x) \<Rightarrow> Inl (TypeError, k)
           | None \<Rightarrow>
               if list_ex (\<lambda>r. map_of kw r = None) required then Inl (TypeError, [])
               else Inr kw)
      | _ \<Rightarrow> Inl (TypeError, []))"

text \<open>The comprehension \<^verbatim>\<open>{key: C(**v) for key, v in d.items()}\<close>.\<close>

fun construct_all ::
  "unicode list \<Rightarrow> unicode list \<Rightarrow> (unicode \<times> json) list \<Rightarrow>
     exception \<times> unicode + (unicode \<times> (unicode \<times> json) list) list" where
  "construct_all keywords required [] = Inr []"
| "construct_all keywords required ((key, v) # rest) =
     (case call_with keywords required v of
        Inl e \<Rightarrow> Inl e
      | Inr kw \<Rightarrow>
          (case construct_all keywords required rest of
             Inl e \<Rightarrow> Inl e
           | Inr objects \<Rightarrow> Inr ((key, kw) # objects)))"

text \<open>
  What \<^verbatim>\<open>load_data\<close> leaves in \<^verbatim>\<open>self.books\<close>, \<^verbatim>\<open>self.members\<close> and
  \<^verbatim>\<open>self.history\<close>: each book and member under its key, given by the keyword
  arguments it was made from, and the history as it was read.
\<close>

record Loaded =
  loaded_books :: "(unicode \<times> (unicode \<times> json) list) list"
  loaded_members :: "(unicode \<times> (unicode \<times> json) list) list"
  loaded_history :: json

definition empty_Loaded :: Loaded where
  "empty_Loaded = \<lparr>loaded_books = [], loaded_members = [], loaded_history = JList []\<rparr>"

text \<open>
  The body of the \<^verbatim>\<open>try\<close> statement of \<^verbatim>\<open>load_data\<close>. \<^verbatim>\<open>.items()\<close> of a value
  that is no dictionary raises \<^verbatim>\<open>AttributeError\<close>.
\<close>

definition load_data_try :: "store \<Rightarrow> exception \<times> unicode + Loaded" where
  "load_data_try f =
     (case f of
        Missing \<Rightarrow> Inr empty_Loaded
      | Unreadable \<Rightarrow> Inl (Reading_error, [])
      | Parsed v \<Rightarrow>
          let data =
            (case v of
               JDict d \<Rightarrow> d
             | _ \<Rightarrow> [(ascii ''books'', JDict []), (ascii ''members'', JDict []),
                       (ascii ''history'', JList [])])
          in
          (case dict_get data (ascii ''books'') (JDict []) of
             JDict bs \<Rightarrow>
               (case construct_all Book_keywords Book_required bs of
                  Inl e \<Rightarrow> Inl e
                | Inr bks \<Rightarrow>
                    (case dict_get data (ascii ''members'') (JDict []) of
                       JDict ms \<Rightarrow>
                         (case construct_all Member_keywords Member_required ms of
                            Inl e \<Rightarrow> Inl e
                          | Inr mbs \<Rightarrow>
                              Inr \<lparr>loaded_books = bks, loaded_members = mbs,
                                   loaded_history = dict_get data (ascii ''history'') (JList [])\<rparr>)
                     | _ \<Rightarrow> Inl (AttributeError, [])))
           | _ \<Rightarrow> Inl (AttributeError, [])))"

text \<open>
  \<^verbatim>\<open>load_data\<close>. Its handler prints the exception before it empties the library, and
  \<^verbatim>\<open>print\<close> raises \<^verbatim>\<open>UnicodeEncodeError\<close> on a code point that standard output
  cannot encode. \<open>enc\<close> tells the code points it can; the fixed words of the messages
  are ASCII and taken to be among them, so only the text repeated from the document
  counts. \<open>utf8\<close> is the strict UTF-8 encoding.
\<close>

definition load_data :: "(nat \<Rightarrow> bool) \<Rightarrow> store \<Rightarrow> exception + Loaded" where
  "load_data enc f =
     (case load_data_try f of
        Inr s \<Rightarrow> Inr s
      | Inl (e, quoted) \<Rightarrow>
          if list_all enc quoted then Inr empty_Loaded else Inl UnicodeEncodeError)"

definition utf8 :: "nat \<Rightarrow> bool" where
  "utf8 n \<longleftrightarrow> n < 55296 \<or> (57343 < n \<and> n \<le> 1114111)"

text \<open>
  The keys of the dictionaries that a document gives to the constructors as keyword
  arguments.
\<close>

fun dict_items :: "json \<Rightarrow> (unicode \<times> json) list" where
  "dict_items (JDict d) = d"
| "dict_items v = []"

definition given_keywords :: "store \<Rightarrow> unicode list" where
  "given_keywords f =
     (case f of
        Parsed (JDict d) \<Rightarrow>
          concat (map (\<lambda>(key, v). map fst (dict_items v))
            (dict_items (dict_get d (ascii ''books'') (JDict [])) @
             dict_items (dict_get d (ascii ''members'') (JDict []))))
      | _ \<Rightarrow> [])"

subsection \<open>Consistency of a state\<close>

text \<open>
  Keys are distinct and each object is stored under its own identifier; a borrowed book
  names a member who lists it and every listed book is borrowed by the member listing
  it; no list names a book twice; a book that is not borrowed has no borrower and no
  due date; titles, authors and names carry no surrounding whitespace.
\<close>

definition dicts :: "Library \<Rightarrow> bool" where
  "dicts s \<longleftrightarrow> distinct (map fst (books s)) \<and> distinct (map fst (members s))"

definition keys_ok :: "Library \<Rightarrow> bool" where
  "keys_ok s \<longleftrightarrow>
     dicts s \<and>
     (\<forall>(k, b) \<in> set (books s). book_id b = k) \<and>
     (\<forall>(j, m) \<in> set (members s). member_id m = j)"

definition loans_ok :: "Library \<Rightarrow> bool" where
  "loans_ok s \<longleftrightarrow>
     (\<forall>(k, b) \<in> set (books s). is_borrowed b \<longrightarrow>
        (case borrower_id b of
           None \<Rightarrow> False
         | Some j \<Rightarrow>
             (case map_of (members s) j of
                None \<Rightarrow> False
              | Some m \<Rightarrow> k \<in> set (borrowed_book_ids m)))) \<and>
     (\<forall>(j, m) \<in> set (members s). distinct (borrowed_book_ids m) \<and>
        (\<forall>k \<in> set (borrowed_book_ids m).
           (case map_of (books s) k of
              None \<Rightarrow> False
            | Some b \<Rightarrow> is_borrowed b \<and> borrower_id b = Some j)))"

definition idle_ok :: "Library \<Rightarrow> bool" where
  "idle_ok s \<longleftrightarrow>
     (\<forall>(k, b) \<in> set (books s). \<not> is_borrowed b \<longrightarrow> borrower_id b = None \<and> due_date b = None)"

definition stripped :: "string \<Rightarrow> bool" where
  "stripped t \<longleftrightarrow> strip t = t"

definition stripped_ok :: "Library \<Rightarrow> bool" where
  "stripped_ok s \<longleftrightarrow>
     (\<forall>(k, b) \<in> set (books s). stripped (title b) \<and> stripped (author b)) \<and>
     (\<forall>(j, m) \<in> set (members s). stripped (name m))"




definition consistent :: "Library \<Rightarrow> bool" where
  "consistent s \<longleftrightarrow> keys_ok s \<and> loans_ok s \<and> idle_ok s \<and> stripped_ok s"

subsection \<open>The fine as the specification words it\<close>

text \<open>
  \<open>max(0, daysLate) * 10\<close>, where \<open>daysLate\<close> is the whole number of days from the due
  date to the return; zero when the due date is missing or malformed.
\<close>

definition spec_fine :: "datetime \<Rightarrow> date_text option \<Rightarrow> int" where
  "spec_fine now dd =
     (case dd of
        Some (Minute d) \<Rightarrow> max 0 ((now - d * minute_us) div day_us) * 10
      | _ \<Rightarrow> 0)"

section \<open>app.py: a number of copies per book\<close>

subsection \<open>Models\<close>

record app_Book =
  app_book_id :: int
  app_title :: string
  app_author :: string
  total_copies :: int
  available_copies :: int

record app_Member =
  app_member_id :: int
  app_name :: string
  borrowed_books :: "int list"

record app_Library =
  app_books :: "app_Book list"
  app_members :: "(int \<times> app_Member) list"

definition app_new_Book :: "int \<Rightarrow> string \<Rightarrow> string \<Rightarrow> int \<Rightarrow> int option \<Rightarrow> app_Book" where
  "app_new_Book bid t a copies avail =
     \<lparr>app_book_id = bid, app_title = t, app_author = a, total_copies = copies,
      available_copies = (case avail of None \<Rightarrow> copies | Some v \<Rightarrow> v)\<rparr>"

definition app_new_Member :: "int \<Rightarrow> string \<Rightarrow> app_Member" where
  "app_new_Member mid n = \<lparr>app_member_id = mid, app_name = n, borrowed_books = []\<rparr>"

definition app_empty_Library :: app_Library where
  "app_empty_Library = \<lparr>app_books = [], app_members = []\<rparr>"

subsection \<open>Member\<close>

definition Member_borrow_book :: "app_Member \<Rightarrow> app_Book \<Rightarrow> exception + app_Member \<times> app_Book" where
  "Member_borrow_book m book =
     (if available_copies book \<le> 0 then Inl AlreadyBorrowedError
      else Inr (m\<lparr>borrowed_books := borrowed_books m @ [app_book_id book]\<rparr>,
                book\<lparr>available_copies := available_copies book - 1\<rparr>))"

definition Member_return_book :: "app_Member \<Rightarrow> app_Book \<Rightarrow> app_Member \<times> app_Book" where
  "Member_return_book m book =
     (if app_book_id book \<in> set (borrowed_books m)
      then (m\<lparr>borrowed_books := remove1 (app_book_id book) (borrowed_books m)\<rparr>,
            book\<lparr>available_copies := min (available_copies book + 1) (total_copies book)\<rparr>)
      else (m, book))"

subsection \<open>Library\<close>

definition app_Library_add_member :: "app_Library \<Rightarrow> app_Member \<Rightarrow> app_Library" where
  "app_Library_add_member s m =
     s\<lparr>app_members := AList.update (app_member_id m) m (app_members s)\<rparr>"

definition get_member :: "app_Library \<Rightarrow> int \<Rightarrow> exception + app_Member" where
  "get_member s mid =
     (case map_of (app_members s) mid of
        None \<Rightarrow> Inl MemberNotFoundError
      | Some m \<Rightarrow> Inr m)"

definition app_Library_add_book :: "app_Library \<Rightarrow> app_Book \<Rightarrow> app_Library" where
  "app_Library_add_book s b = s\<lparr>app_books := app_books s @ [b]\<rparr>"

text \<open>The position of the first book with the title, letter case ignored.\<close>

fun first_titled :: "app_Book list \<Rightarrow> string \<Rightarrow> nat option" where
  "first_titled [] t = None"
| "first_titled (b # bs) t =
     (if lower (app_title b) = lower t then Some 0 else map_option Suc (first_titled bs t))"

definition search_book :: "app_Library \<Rightarrow> string \<Rightarrow> exception + nat \<times> app_Book" where
  "search_book s t =
     (case first_titled (app_books s) t of
        None \<Rightarrow> Inl BookNotFoundError
      | Some i \<Rightarrow> Inr (i, app_books s ! i))"

definition app_borrow_book :: "app_Library \<Rightarrow> int \<Rightarrow> string \<Rightarrow> (exception + unit) \<times> app_Library" where
  "app_borrow_book s mid t =
     (case get_member s mid of
        Inl e \<Rightarrow> (Inl e, s)
      | Inr m \<Rightarrow>
     (case search_book s t of
        Inl e \<Rightarrow> (Inl e, s)
      | Inr (i, book) \<Rightarrow>
     (case Member_borrow_book m book of
        Inl e \<Rightarrow> (Inl e, s)
      | Inr (m', book') \<Rightarrow>
          (Inr (), s\<lparr>app_books := (app_books s)[i := book'],
                     app_members := AList.update mid m' (app_members s)\<rparr>))))"

definition app_return_book :: "app_Library \<Rightarrow> int \<Rightarrow> string \<Rightarrow> (exception + unit) \<times> app_Library" where
  "app_return_book s mid t =
     (case get_member s mid of
        Inl e \<Rightarrow> (Inl e, s)
      | Inr m \<Rightarrow>
     (case search_book s t of
        Inl e \<Rightarrow> (Inl e, s)
      | Inr (i, book) \<Rightarrow>
          (let (m', book') = Member_return_book m book
           in (Inr (), s\<lparr>app_books := (app_books s)[i := book'],
                          app_members := AList.update mid m' (app_members s)\<rparr>))))"

text \<open>
  Loading in \<^verbatim>\<open>app.py\<close>. Iterating over a list gives its elements, over a dictionary
  its keys, over a text its characters; a number, a truth value and \<^verbatim>\<open>None\<close> raise
  \<^verbatim>\<open>TypeError\<close>. \<^verbatim>\<open>v[key]\<close> with a text as key raises \<^verbatim>\<open>KeyError\<close> on a
  dictionary without the key and \<^verbatim>\<open>TypeError\<close> on every value that is no dictionary.
\<close>

fun iterate :: "json \<Rightarrow> exception + json list" where
  "iterate (JList vs) = Inr vs"
| "iterate (JDict d) = Inr (map (JStr \<circ> fst) d)"
| "iterate (JStr cs) = Inr (map (\<lambda>c. JStr [c]) cs)"
| "iterate v = Inl TypeError"

fun subscript :: "json \<Rightarrow> unicode \<Rightarrow> exception + json" where
  "subscript (JDict d) key = (case map_of d key of None \<Rightarrow> Inl KeyError | Some v \<Rightarrow> Inr v)"
| "subscript v key = Inl TypeError"

text \<open>
  \<^verbatim>\<open>Book.from_dict\<close> and \<^verbatim>\<open>Member.from_dict\<close>: the arguments the constructor is
  called with, in its order (identifier, title, author, total and available copies;
  identifier, name, borrowed books). The constructors accept every value.
\<close>

definition Book_from_dict :: "json \<Rightarrow> exception + json list" where
  "Book_from_dict data =
     (case subscript data (ascii ''book_id'') of
        Inl e \<Rightarrow> Inl e
      | Inr bid \<Rightarrow>
     (case subscript data (ascii ''title'') of
        Inl e \<Rightarrow> Inl e
      | Inr t \<Rightarrow>
     (case subscript data (ascii ''author'') of
        Inl e \<Rightarrow> Inl e
      | Inr a \<Rightarrow>
          let copies = dict_get (dict_items data) (ascii ''total_copies'') (JInt 1)
          in Inr [bid, t, a, copies,
                  dict_get (dict_items data) (ascii ''available_copies'') copies])))"

definition Member_from_dict :: "json \<Rightarrow> exception + json list" where
  "Member_from_dict data =
     (case subscript data (ascii ''member_id'') of
        Inl e \<Rightarrow> Inl e
      | Inr mid \<Rightarrow>
     (case subscript data (ascii ''name'') of
        Inl e \<Rightarrow> Inl e
      | Inr n \<Rightarrow>
     (case subscript data (ascii ''borrowed_books'') of
        Inl e \<Rightarrow> Inl e
      | Inr bs \<Rightarrow> Inr [mid, n, bs])))"

text \<open>The comprehension \<^verbatim>\<open>[Book.from_dict(book) for book in data]\<close>, after the iteration.\<close>

fun books_from :: "json list \<Rightarrow> exception + json list list" where
  "books_from [] = Inr []"
| "books_from (v # vs) =
     (case Book_from_dict v of
        Inl e \<Rightarrow> Inl e
      | Inr b \<Rightarrow> (case books_from vs of Inl e \<Rightarrow> Inl e | Inr bs \<Rightarrow> Inr (b # bs)))"

text \<open>
  The comprehension \<^verbatim>\<open>{m["member_id"]: Member.from_dict(m) for m in data}\<close>, after
  the iteration: the insertions it makes, in order. A list or a dictionary as key
  raises \<^verbatim>\<open>TypeError\<close>, for it cannot be hashed.
\<close>

fun hashable :: "json \<Rightarrow> bool" where
  "hashable (JList vs) = False"
| "hashable (JDict d) = False"
| "hashable v = True"

fun members_from :: "json list \<Rightarrow> exception + (json \<times> json list) list" where
  "members_from [] = Inr []"
| "members_from (v # vs) =
     (case subscript v (ascii ''member_id'') of
        Inl e \<Rightarrow> Inl e
      | Inr key \<Rightarrow>
     (case Member_from_dict v of
        Inl e \<Rightarrow> Inl e
      | Inr m \<Rightarrow>
          if \<not> hashable key then Inl TypeError
          else (case members_from vs of Inl e \<Rightarrow> Inl e | Inr ms \<Rightarrow> Inr ((key, m) # ms))))"

record app_Loaded =
  app_loaded_books :: "json list list"
  app_loaded_members :: "(json \<times> json list) list"

text \<open>
  \<^verbatim>\<open>load_from_file\<close> reads the books file and then the members file. Each
  \<^verbatim>\<open>try\<close> statement catches \<^verbatim>\<open>FileNotFoundError\<close>, the exception of a missing
  file, and nothing else.
\<close>

definition app_load_books :: "store \<Rightarrow> exception + json list list" where
  "app_load_books f =
     (case f of
        Missing \<Rightarrow> Inr []
      | Unreadable \<Rightarrow> Inl Reading_error
      | Parsed data \<Rightarrow> (case iterate data of Inl e \<Rightarrow> Inl e | Inr vs \<Rightarrow> books_from vs))"

definition app_load_members :: "store \<Rightarrow> exception + (json \<times> json list) list" where
  "app_load_members f =
     (case f of
        Missing \<Rightarrow> Inr []
      | Unreadable \<Rightarrow> Inl Reading_error
      | Parsed data \<Rightarrow> (case iterate data of Inl e \<Rightarrow> Inl e | Inr vs \<Rightarrow> members_from vs))"

definition load_from_file :: "store \<Rightarrow> store \<Rightarrow> exception + app_Loaded" where
  "load_from_file books_file members_file =
     (case app_load_books books_file of
        Inl e \<Rightarrow> Inl e
      | Inr bs \<Rightarrow>
     (case app_load_members members_file of
        Inl e \<Rightarrow> Inl e
      | Inr ms \<Rightarrow> Inr \<lparr>app_loaded_books = bs, app_loaded_members = ms\<rparr>))"

subsection \<open>The functions behind the form\<close>

definition app_add_book :: "app_Library \<Rightarrow> int \<Rightarrow> string \<Rightarrow> string \<Rightarrow> int \<Rightarrow> app_Library" where
  "app_add_book s bid t a copies = app_Library_add_book s (app_new_Book bid t a copies None)"

definition app_add_member :: "app_Library \<Rightarrow> int \<Rightarrow> string \<Rightarrow> app_Library" where
  "app_add_member s mid n = app_Library_add_member s (app_new_Member mid n)"

datatype app_op =
  App_add_book int string string int
| App_add_member int string
| App_borrow_book int string
| App_return_book int string

fun app_step :: "app_Library \<Rightarrow> app_op \<Rightarrow> app_Library" where
  "app_step s (App_add_book bid t a copies) = app_add_book s bid t a copies"
| "app_step s (App_add_member mid n) = app_add_member s mid n"
| "app_step s (App_borrow_book mid t) = snd (app_borrow_book s mid t)"
| "app_step s (App_return_book mid t) = snd (app_return_book s mid t)"

fun app_run :: "app_Library \<Rightarrow> app_op list \<Rightarrow> app_Library" where
  "app_run s [] = s"
| "app_run s (x # xs) = app_run (app_step s x) xs"

text \<open>The number of copies an operation adds to the catalog, if it adds a book.\<close>

fun copies_added :: "app_op \<Rightarrow> int option" where
  "copies_added (App_add_book bid t a copies) = Some copies"
| "copies_added x = None"

definition copies_in_range :: "app_Library \<Rightarrow> bool" where
  "copies_in_range s \<longleftrightarrow>
     (\<forall>b \<in> set (app_books s). 0 \<le> available_copies b \<and> available_copies b \<le> total_copies b)"

definition copies_bounded :: "app_Library \<Rightarrow> bool" where
  "copies_bounded s \<longleftrightarrow> (\<forall>b \<in> set (app_books s). available_copies b \<le> total_copies b)"

section \<open>A small library\<close>

text \<open>
  The state after adding the book B1 ("Dune", by Herbert) and the member M1 (Alice),
  then after M1 borrows B1 at time 0, and after M1 returns it ten days later.
\<close>

definition dune_library :: Library where
  "dune_library =
     \<lparr>books = [(''B1'', new_Book ''B1'' ''Dune'' ''Herbert'')],
      members = [(''M1'', new_Member ''M1'' ''Alice'')], history = []\<rparr>"

definition dune_borrowed :: Library where
  "dune_borrowed =
     \<lparr>books = [(''B1'', (new_Book ''B1'' ''Dune'' ''Herbert'')
                 \<lparr>is_borrowed := True, borrower_id := Some ''M1'', due_date := Some (Minute 10080)\<rparr>)],
      members = [(''M1'', (new_Member ''M1'' ''Alice'')\<lparr>borrowed_book_ids := [''B1'']\<rparr>)],
      history = [Borrow_entry (Minute 0) ''B1'' ''M1'' (Minute 10080)]\<rparr>"

definition dune_returned :: Library where
  "dune_returned =
     dune_library\<lparr>history := [Borrow_entry (Minute 0) ''B1'' ''M1'' (Minute 10080),
        Return_entry (Minute 14400) ''B1'' ''M1'' 30]\<rparr>"

definition dune_undated :: Library where
  "dune_undated =
     dune_borrowed\<lparr>books := [(''B1'', (new_Book ''B1'' ''Dune'' ''Herbert'')
        \<lparr>is_borrowed := True, borrower_id := Some ''M1'', due_date := Some (Unparsable ''soon'')\<rparr>)]\<rparr>"

text \<open>The same library in \<^verbatim>\<open>app.py\<close>, with one copy of the book, before and after the loan.\<close>

definition app_dune_library :: app_Library where
  "app_dune_library =
     \<lparr>app_books = [app_new_Book 1 ''Dune'' ''Herbert'' 1 None],
      app_members = [(1, app_new_Member 1 ''Alice'')]\<rparr>"

definition app_dune_borrowed :: app_Library where
  "app_dune_borrowed =
     \<lparr>app_books = [(app_new_Book 1 ''Dune'' ''Herbert'' 1 None)\<lparr>available_copies := 0\<rparr>],
      app_members = [(1, (app_new_Member 1 ''Alice'')\<lparr>borrowed_books := [1]\<rparr>)]\<rparr>"

text \<open>An operation that adds no negative number of copies.\<close>

fun adds_no_negative :: "app_op \<Rightarrow> bool" where
  "adds_no_negative x = (case copies_added x of None \<Rightarrow> True | Some c \<Rightarrow> 0 \<le> c)"

section \<open>Properties of Web.py\<close>

subsection \<open>Dictionaries and resolution\<close>

lemma find_stored:
  assumes "distinct (map fst xs)" "find P xs = Some (k, v)"
  shows "map_of xs k = Some v"
proof -
  from assms(2) have "(k, v) \<in> set xs"
    by (auto simp: find_Some_iff)
  with assms(1) show ?thesis by simp
qed

lemma find_update_same:
  assumes "distinct (map fst xs)" "find P xs = Some (k, v)" "P (k, v')"
  shows "find P (AList.update k v' xs) = Some (k, v')"
  using assms
proof (induction xs)
  case Nil
  then show ?case by simp
next
  case (Cons x xs)
  show ?case
  proof (cases "P x")
    case True
    with Cons.prems show ?thesis by (cases x) auto
  next
    case False
    with Cons.prems have f: "find P xs = Some (k, v)" by simp
    then have "(k, v) \<in> set xs" by (auto simp: find_Some_iff)
    with Cons.prems(1) have "fst x \<noteq> k" by (cases x) force
    with False f Cons show ?thesis by (cases x) auto
  qed
qed

lemma find_holds: "find P xs = Some x \<Longrightarrow> P x"
  by (auto simp: find_Some_iff)

lemma resolve_member_stored:
  assumes "dicts s" "resolve_member s key bn = Some (mk, m)"
  shows "map_of (members s) mk = Some m"
  using assms
  by (auto simp: resolve_member_def find_member_by_name_ci_def dicts_def Let_def
      split: if_splits dest: find_stored simp del: map_of_eq_Some_iff)

lemma resolve_book_stored:
  assumes "dicts s" "resolve_book s key bt = Some (bk, b)"
  shows "map_of (books s) bk = Some b"
  using assms
  by (auto simp: resolve_book_def find_book_by_title_ci_def dicts_def Let_def
      split: if_splits dest: find_stored simp del: map_of_eq_Some_iff)

lemma resolve_member_update:
  assumes "dicts s" "resolve_member s key bn = Some (mk, m)" "name m' = name m"
  shows "resolve_member (s\<lparr>books := bs, members := AList.update mk m' (members s), history := h\<rparr>) key bn = Some (mk, m')"
proof (cases bn)
  case True
  let ?P = "\<lambda>(k, m). lower (name m) = lower (strip key)"
  from True assms(2) have f: "find ?P (members s) = Some (mk, m)"
    by (simp add: resolve_member_def find_member_by_name_ci_def)
  then have "?P (mk, m)" by (rule find_holds)
  with assms(3) have "?P (mk, m')" by simp
  with assms(1) f have "find ?P (AList.update mk m' (members s)) = Some (mk, m')"
    by (intro find_update_same) (simp_all add: dicts_def)
  with True show ?thesis
    by (simp add: resolve_member_def find_member_by_name_ci_def)
next
  case False
  with assms(2) show ?thesis
    by (auto simp: resolve_member_def update_conv')
qed

lemma resolve_book_update:
  assumes "dicts s" "resolve_book s key bt = Some (bk, b)" "title b' = title b"
  shows "resolve_book (s\<lparr>books := AList.update bk b' (books s), members := ms, history := h\<rparr>) key bt = Some (bk, b')"
proof (cases bt)
  case True
  let ?P = "\<lambda>(k, b). lower (title b) = lower (strip key)"
  from True assms(2) have f: "find ?P (books s) = Some (bk, b)"
    by (simp add: resolve_book_def find_book_by_title_ci_def)
  then have "?P (bk, b)" by (rule find_holds)
  with assms(3) have "?P (bk, b')" by simp
  with assms(1) f have "find ?P (AList.update bk b' (books s)) = Some (bk, b')"
    by (intro find_update_same) (simp_all add: dicts_def)
  with True show ?thesis
    by (simp add: resolve_book_def find_book_by_title_ci_def)
next
  case False
  with assms(2) show ?thesis
    by (auto simp: resolve_book_def update_conv')
qed

subsection \<open>What the operations do\<close>

lemma borrow_book_success:
  assumes "borrow_book s now stamp mkey bkey bt bn = ((True, msg), s')"
  shows "\<exists>mk m bk b. resolve_member s mkey bn = Some (mk, m) \<and> resolve_book s bkey bt = Some (bk, b)
     \<and> \<not> is_borrowed b
     \<and> msg = Borrowed (name m) (title b) (strftime (now + timedelta_days 7))
     \<and> s' = s\<lparr>books := AList.update bk (b\<lparr>is_borrowed := True, borrower_id := Some (member_id m),
           due_date := Some (strftime (now + timedelta_days 7))\<rparr>) (books s),
           members := AList.update mk (m\<lparr>borrowed_book_ids := borrowed_book_ids m @ [book_id b]\<rparr>) (members s),
           history := history s @ [Borrow_entry (strftime stamp) (book_id b) (member_id m) (strftime (now + timedelta_days 7))]\<rparr>"
  using assms by (auto simp: borrow_book_def Let_def split: option.splits if_splits)

lemma return_book_success:
  assumes "return_book s now stamp mkey bkey bt bn = ((True, msg), s')"
  shows "\<exists>mk m bk b. resolve_member s mkey bn = Some (mk, m) \<and> resolve_book s bkey bt = Some (bk, b)
     \<and> is_borrowed b \<and> borrower_id b = Some (member_id m)
     \<and> msg = Returned (title b) (fine_calculation now (due_date b))
     \<and> s' = s\<lparr>books := AList.update bk (b\<lparr>is_borrowed := False, borrower_id := None, due_date := None\<rparr>) (books s),
           members := AList.update mk (m\<lparr>borrowed_book_ids := remove1 (book_id b) (borrowed_book_ids m)\<rparr>) (members s),
           history := history s @ [Return_entry (strftime stamp) (book_id b) (member_id m) (fine_calculation now (due_date b))]\<rparr>"
  using assms by (auto simp: return_book_def Let_def split: option.splits if_splits)

lemma return_book_held:
  assumes "resolve_member s mkey bn = Some (mk, m)" "resolve_book s bkey bt = Some (bk, b)"
    "is_borrowed b" "borrower_id b = Some (member_id m)"
  shows "return_book s now stamp mkey bkey bt bn =
     ((True, Returned (title b) (fine_calculation now (due_date b))),
      s\<lparr>books := AList.update bk (b\<lparr>is_borrowed := False, borrower_id := None, due_date := None\<rparr>) (books s),
           members := AList.update mk (m\<lparr>borrowed_book_ids := remove1 (book_id b) (borrowed_book_ids m)\<rparr>) (members s),
           history := history s @ [Return_entry (strftime stamp) (book_id b) (member_id m) (fine_calculation now (due_date b))]\<rparr>)"
  using assms by (simp add: return_book_def Let_def)

lemma failure_keeps_state:
  "step s x = ((False, msg), s') \<Longrightarrow> s' = s"
  by (cases x) (auto simp: add_book_def add_member_def borrow_book_def return_book_def Let_def
      split: option.splits if_splits)

subsection \<open>The small library, evaluated\<close>

lemma strip_samples:
  "strip ''Dune'' = ''Dune''" "strip ''Herbert'' = ''Herbert''" "strip ''Alice'' = ''Alice''"
  by (simp_all add: strip_def isspace_def)

lemma dune_library_run:
  "run empty_Library [Add_book ''B1'' ''Dune'' ''Herbert'', Add_member ''M1'' ''Alice''] = dune_library"
  by (simp add: empty_Library_def add_book_def add_member_def dune_library_def strip_samples)

lemma dune_resolve:
  "resolve_member dune_library ''M1'' False = Some (''M1'', new_Member ''M1'' ''Alice'')"
  "resolve_book dune_library ''B1'' False = Some (''B1'', new_Book ''B1'' ''Dune'' ''Herbert'')"
  by (simp_all add: resolve_member_def resolve_book_def dune_library_def)

lemma dune_borrow:
  "borrow_book dune_library 0 0 ''M1'' ''B1'' False False =
     ((True, Borrowed ''Alice'' ''Dune'' (Minute 10080)), dune_borrowed)"
  unfolding borrow_book_def dune_resolve
  by (simp add: Let_def new_Book_def new_Member_def strftime_def
      timedelta_days_def day_us_def minute_us_def dune_library_def dune_borrowed_def)

lemma dune_borrowed_resolve:
  "resolve_member dune_borrowed ''M1'' False =
     Some (''M1'', (new_Member ''M1'' ''Alice'')\<lparr>borrowed_book_ids := [''B1'']\<rparr>)"
  "resolve_book dune_borrowed ''B1'' False =
     Some (''B1'', (new_Book ''B1'' ''Dune'' ''Herbert'')
        \<lparr>is_borrowed := True, borrower_id := Some ''M1'', due_date := Some (Minute 10080)\<rparr>)"
  by (simp_all add: resolve_member_def resolve_book_def dune_borrowed_def)

lemma dicts_dune: "dicts dune_library" "dicts dune_borrowed"
  by (simp_all add: dicts_def dune_library_def dune_borrowed_def)

lemma dune_return:
  "return_book dune_borrowed (timedelta_days 10) (timedelta_days 10) ''M1'' ''B1'' False False =
     ((True, Returned ''Dune'' 30), dune_returned)"
  unfolding return_book_def dune_borrowed_resolve
  by (simp add: Let_def new_Book_def new_Member_def strftime_def fine_calculation_def days_def
      timedelta_days_def day_us_def minute_us_def dune_library_def dune_borrowed_def dune_returned_def)

lemma dune_undated_resolve:
  "resolve_member dune_undated ''M1'' False =
     Some (''M1'', (new_Member ''M1'' ''Alice'')\<lparr>borrowed_book_ids := [''B1'']\<rparr>)"
  "resolve_book dune_undated ''B1'' False =
     Some (''B1'', (new_Book ''B1'' ''Dune'' ''Herbert'')
        \<lparr>is_borrowed := True, borrower_id := Some ''M1'', due_date := Some (Unparsable ''soon'')\<rparr>)"
  by (simp_all add: resolve_member_def resolve_book_def dune_undated_def dune_borrowed_def)

subsection \<open>Fines\<close>

lemma fine_calculation_spec: "fine_calculation now dd = spec_fine now dd"
  by (auto simp: fine_calculation_def spec_fine_def days_def Let_def split: option.splits date_text.splits)

lemma day_minutes: "day_us = 1440 * minute_us"
  by (simp add: day_us_def minute_us_def)

lemma strftime_add_days: "strftime (t + timedelta_days n) = Minute (t div minute_us + n * 1440)"
proof -
  have "t + timedelta_days n = t + (n * 1440) * minute_us"
    by (simp add: timedelta_days_def day_minutes)
  then show ?thesis
    by (simp add: strftime_def minute_us_def)
qed

lemma days_between:
  assumes "timedelta_days k \<le> d" "d < timedelta_days (k + 1)"
  shows "days d = k"
proof -
  have "d div day_us = k"
  proof (rule int_div_pos_eq)
    show "d = day_us * k + (d - day_us * k)" by simp
    show "0 \<le> d - day_us * k" using assms(1) by (simp add: timedelta_days_def mult.commute)
    show "d - day_us * k < day_us" using assms(2) by (simp add: timedelta_days_def algebra_simps)
  qed
  then show ?thesis by (simp add: days_def)
qed

lemma fine_three_days_late:
  assumes "strptime dtext = Some due" "due + timedelta_days 3 \<le> now" "now < due + timedelta_days 4"
  shows "fine_calculation now (Some dtext) = 30"
proof -
  have "days (now - due) = 3"
    using assms(2,3) by (intro days_between) simp_all
  moreover have "truthy (Some dtext)"
    using assms(1) by (cases dtext) simp_all
  ultimately show ?thesis
    using assms(1) by (simp add: fine_calculation_def)
qed

lemma fine_on_time:
  assumes "strptime dtext = Some due" "now \<le> due"
  shows "fine_calculation now (Some dtext) = 0"
proof -
  have "now - due \<le> 0" using assms(2) by simp
  then have "(now - due) div day_us \<le> 0"
    by (simp add: day_us_def div_nonpos_pos_le0)
  then show ?thesis
    using assms(1) by (simp add: fine_calculation_def days_def)
qed

lemma fine_borrow_plus_ten:
  "fine_calculation (T + timedelta_days 10) (Some (strftime (T + timedelta_days 7))) = 30"
proof -
  define due where "due = (T div minute_us + 7 * 1440) * minute_us"
  have p: "strptime (strftime (T + timedelta_days 7)) = Some due"
    by (simp add: strftime_add_days due_def)
  have due: "due = T - T mod minute_us + timedelta_days 7"
    by (simp add: due_def timedelta_days_def day_minutes algebra_simps minus_mod_eq_mult_div)
  have "0 \<le> T mod minute_us" "T mod minute_us < minute_us"
    by (simp_all add: minute_us_def)
  then have "due + timedelta_days 3 \<le> T + timedelta_days 10"
    "T + timedelta_days 10 < due + timedelta_days 4"
    unfolding due by (simp_all add: timedelta_days_def day_us_def minute_us_def)
  with p show ?thesis by (rule fine_three_days_late)
qed

lemma borrow_then_return_late:
  assumes "dicts s" "borrow_book s T stamp0 mkey bkey bt bn = ((True, msg0), s0)"
  shows "\<exists>t. fst (return_book s0 (T + timedelta_days 10) stamp mkey bkey bt bn) = (True, Returned t 30)"
proof -
  from borrow_book_success[OF assms(2)] obtain mk m bk b where
    rm: "resolve_member s mkey bn = Some (mk, m)" and rb: "resolve_book s bkey bt = Some (bk, b)"
    and s0: "s0 = s\<lparr>books := AList.update bk (b\<lparr>is_borrowed := True, borrower_id := Some (member_id m),
           due_date := Some (strftime (T + timedelta_days 7))\<rparr>) (books s),
           members := AList.update mk (m\<lparr>borrowed_book_ids := borrowed_book_ids m @ [book_id b]\<rparr>) (members s),
           history := history s @ [Borrow_entry (strftime stamp0) (book_id b) (member_id m) (strftime (T + timedelta_days 7))]\<rparr>"
    by blast
  let ?b = "b\<lparr>is_borrowed := True, borrower_id := Some (member_id m),
           due_date := Some (strftime (T + timedelta_days 7))\<rparr>"
  let ?m = "m\<lparr>borrowed_book_ids := borrowed_book_ids m @ [book_id b]\<rparr>"
  have d0: "dicts (s\<lparr>books := AList.update bk ?b (books s)\<rparr>)"
    using assms(1) by (simp add: dicts_def distinct_update)
  have rm0: "resolve_member s0 mkey bn = Some (mk, ?m)"
    unfolding s0 by (rule resolve_member_update[OF assms(1) rm]) simp
  have rb0: "resolve_book s0 bkey bt = Some (bk, ?b)"
    unfolding s0 by (rule resolve_book_update[OF assms(1) rb]) simp
  have "fst (return_book s0 (T + timedelta_days 10) stamp mkey bkey bt bn) =
      (True, Returned (title ?b) (fine_calculation (T + timedelta_days 10) (due_date ?b)))"
    by (subst return_book_held[OF rm0 rb0]) simp_all
  then show ?thesis
    by (simp add: fine_borrow_plus_ten)
qed

text \<open>
  C4. A successful return carries the fine \<open>max(0, daysLate) * 10\<close>, \<open>daysLate\<close> being
  the whole days from the due date to the return, in its message and in its history
  entry; a return at or before the due date has fine 0; a return of a held book whose
  due date is missing or malformed succeeds with fine 0; a return exactly ten days after
  the borrow, the due date being seven days after it, has fine 30.
\<close>

theorem fine_of_return:
  "(return_book s now stamp mkey bkey bt bn = ((True, msg), s') \<longrightarrow>
      (\<exists>mk m bk b. resolve_member s mkey bn = Some (mk, m) \<and> resolve_book s bkey bt = Some (bk, b) \<and>
         msg = Returned (title b) (spec_fine now (due_date b)) \<and>
         history s' = history s @
           [Return_entry (strftime stamp) (book_id b) (member_id m) (spec_fine now (due_date b))])) \<and>
   (strptime dtext = Some due \<and> nowa \<le> due \<longrightarrow> fine_calculation nowa (Some dtext) = 0) \<and>
   (resolve_member sb mkeyb bnb = Some (mkb, mb) \<and> resolve_book sb bkeyb btb = Some (bkb, bb) \<and>
      is_borrowed bb \<and> borrower_id bb = Some (member_id mb) \<and>
      (due_date bb = None \<or> (\<exists>junk. due_date bb = Some (Unparsable junk))) \<longrightarrow>
        fst (return_book sb nowb stampb mkeyb bkeyb btb bnb) = (True, Returned (title bb) 0)) \<and>
   (dicts sc \<and> borrow_book sc T stampc mkeyc bkeyc btc bnc = ((True, msgc), sd) \<longrightarrow>
      (\<exists>t. fst (return_book sd (T + timedelta_days 10) stampd mkeyc bkeyc btc bnc) =
         (True, Returned t 30)))"
proof (intro conjI impI)
  assume "return_book s now stamp mkey bkey bt bn = ((True, msg), s')"
  from return_book_success[OF this]
  show "\<exists>mk m bk b. resolve_member s mkey bn = Some (mk, m) \<and> resolve_book s bkey bt = Some (bk, b) \<and>
         msg = Returned (title b) (spec_fine now (due_date b)) \<and>
         history s' = history s @
           [Return_entry (strftime stamp) (book_id b) (member_id m) (spec_fine now (due_date b))]"
    unfolding fine_calculation_spec by fastforce
next
  assume "strptime dtext = Some due \<and> nowa \<le> due"
  then show "fine_calculation nowa (Some dtext) = 0"
    using fine_on_time by blast
next
  assume a: "resolve_member sb mkeyb bnb = Some (mkb, mb) \<and> resolve_book sb bkeyb btb = Some (bkb, bb) \<and>
      is_borrowed bb \<and> borrower_id bb = Some (member_id mb) \<and>
      (due_date bb = None \<or> (\<exists>junk. due_date bb = Some (Unparsable junk)))"
  then have "fine_calculation nowb (due_date bb) = 0"
    by (auto simp: fine_calculation_def)
  with a show "fst (return_book sb nowb stampb mkeyb bkeyb btb bnb) = (True, Returned (title bb) 0)"
    by (simp add: return_book_held)
next
  assume "dicts sc \<and> borrow_book sc T stampc mkeyc bkeyc btc bnc = ((True, msgc), sd)"
  then show "\<exists>t. fst (return_book sd (T + timedelta_days 10) stampd mkeyc bkeyc btc bnc) =
         (True, Returned t 30)"
    using borrow_then_return_late by blast
qed

theorem fine_of_return_witness:
  "return_book dune_borrowed (timedelta_days 10) (timedelta_days 10) ''M1'' ''B1'' False False =
     ((True, Returned ''Dune'' 30), dune_returned) \<and>
   history dune_returned = history dune_borrowed @ [Return_entry (Minute 14400) ''B1'' ''M1'' 30] \<and>
   strptime (Minute 10080) = Some (timedelta_days 7) \<and>
   fine_calculation (timedelta_days 7) (Some (Minute 10080)) = 0 \<and>
   fst (return_book dune_undated (timedelta_days 10) 0 ''M1'' ''B1'' False False) =
     (True, Returned ''Dune'' 0) \<and>
   dicts dune_library \<and>
   borrow_book dune_library 0 0 ''M1'' ''B1'' False False =
     ((True, Borrowed ''Alice'' ''Dune'' (Minute 10080)), dune_borrowed) \<and>
   (\<exists>t. fst (return_book dune_borrowed (0 + timedelta_days 10) 0 ''M1'' ''B1'' False False) =
      (True, Returned t 30))"
proof -
  note parts = fine_of_return[THEN conjunct1, rule_format]
    fine_of_return[THEN conjunct2, THEN conjunct1, rule_format]
    fine_of_return[THEN conjunct2, THEN conjunct2, THEN conjunct1, rule_format]
    fine_of_return[THEN conjunct2, THEN conjunct2, THEN conjunct2, rule_format]
  have p: "strptime (Minute 10080) = Some (timedelta_days 7)"
    by (simp add: timedelta_days_def day_us_def minute_us_def)
  from parts(1)[OF dune_return]
  have "history dune_returned = history dune_borrowed @ [Return_entry (Minute 14400) ''B1'' ''M1'' 30]"
    by (simp add: dune_returned_def dune_borrowed_def dune_library_def)
  moreover from parts(2)[of "Minute 10080" "timedelta_days 7" "timedelta_days 7"] p
  have "fine_calculation (timedelta_days 7) (Some (Minute 10080)) = 0" by simp
  moreover have "fst (return_book dune_undated (timedelta_days 10) 0 ''M1'' ''B1'' False False) =
     (True, Returned ''Dune'' 0)"
    using parts(3)[of dune_undated "''M1''" False _ _ "''B1''" False, OF conjI, OF dune_undated_resolve(1),
        OF conjI, OF dune_undated_resolve(2)]
    by (simp add: new_Book_def new_Member_def)
  moreover from parts(4)[OF conjI, OF dicts_dune(1) dune_borrow]
  have "\<exists>t. fst (return_book dune_borrowed (0 + timedelta_days 10) 0 ''M1'' ''B1'' False False) =
      (True, Returned t 30)" .
  ultimately show ?thesis
    using p dune_return dune_borrow dicts_dune(1) by simp
qed

subsection \<open>Failed borrows and duplicate identifiers\<close>

text \<open>
  C7, amended to \<^verbatim>\<open>Web.py\<close>. Adding a book whose identifier is already a key of the
  catalog, or a member whose identifier is already a key of the roster, returns the
  failure "Book ID already exists." or "Member ID already exists." and the state it was
  given.
\<close>

theorem duplicate_identifier:
  "(map_of (books s) bid \<noteq> None \<longrightarrow> add_book s bid t a = ((False, Book_ID_already_exists), s)) \<and>
   (map_of (members s) mid \<noteq> None \<longrightarrow> add_member s mid n = ((False, Member_ID_already_exists), s))"
  by (simp add: add_book_def add_member_def)

theorem duplicate_identifier_witness:
  "map_of (books dune_library) ''B1'' \<noteq> None \<and>
   add_book dune_library ''B1'' ''Emma'' ''Austen'' = ((False, Book_ID_already_exists), dune_library) \<and>
   map_of (members dune_library) ''M1'' \<noteq> None \<and>
   add_member dune_library ''M1'' ''Bob'' = ((False, Member_ID_already_exists), dune_library)"
proof -
  have h: "map_of (books dune_library) ''B1'' \<noteq> None" "map_of (members dune_library) ''M1'' \<noteq> None"
    by (simp_all add: dune_library_def)
  from duplicate_identifier[THEN conjunct1, rule_format, OF h(1)]
    duplicate_identifier[THEN conjunct2, rule_format, OF h(2)] h
  show ?thesis by simp
qed

subsection \<open>Stripping and lower case\<close>

lemma rstrip_Cons:
  assumes "\<not> P x"
  shows "rev (dropWhile P (rev (x # xs))) = x # rev (dropWhile P (rev xs))"
proof -
  have "dropWhile P (rev xs @ [x]) = dropWhile P (rev xs) @ [x]"
    using assms by (simp add: dropWhile_append)
  then show ?thesis by simp
qed

lemma dropWhile_hd: "xs \<noteq> [] \<Longrightarrow> \<not> P (hd xs) \<Longrightarrow> dropWhile P xs = xs"
  by (cases xs) simp_all

lemma dropWhile_rev_last: "xs \<noteq> [] \<Longrightarrow> \<not> P (last xs) \<Longrightarrow> dropWhile P (rev xs) = rev xs"
  by (rule dropWhile_hd) (simp_all add: hd_rev)

lemma strip_Nil: "strip [] = []"
  by (simp add: strip_def)

lemma strip_trimmed:
  assumes "t \<noteq> []" "\<not> isspace (hd t)" "\<not> isspace (last t)"
  shows "strip t = t"
proof -
  have "dropWhile isspace t = t"
    using assms(1,2) by (rule dropWhile_hd)
  moreover have "dropWhile isspace (rev t) = rev t"
    using assms(1,3) by (rule dropWhile_rev_last)
  ultimately show ?thesis
    by (simp add: strip_def)
qed

lemma strip_cases:
  "strip t = [] \<or> (\<not> isspace (hd (strip t)) \<and> \<not> isspace (last (strip t)))"
proof (cases "dropWhile isspace t")
  case Nil
  have "strip t = []" unfolding strip_def Nil by simp
  then show ?thesis by simp
next
  case (Cons x xs)
  have "dropWhile isspace t \<noteq> []" using Cons by simp
  then have "\<not> isspace (hd (dropWhile isspace t))" by (rule hd_dropWhile)
  then have x: "\<not> isspace x" unfolding Cons by simp
  let ?w = "dropWhile isspace (rev xs)"
  have s: "strip t = x # rev ?w"
    unfolding strip_def Cons using x by (rule rstrip_Cons)
  have "\<not> isspace (last (x # rev ?w))"
  proof (cases "?w = []")
    case True
    with x show ?thesis by simp
  next
    case False
    then have h: "\<not> isspace (hd ?w)" by (rule hd_dropWhile)
    from False have "rev ?w \<noteq> []" by (metis rev_is_Nil_conv)
    then have "last (x # rev ?w) = last (rev ?w)" by (rule last_ConsR)
    also have "\<dots> = hd ?w" by (rule last_rev)
    finally have "last (x # rev ?w) = hd ?w" .
    with h show ?thesis by metis
  qed
  with x s show ?thesis by simp
qed

lemma stripped_iff:
  "stripped t \<longleftrightarrow> t = [] \<or> (\<not> isspace (hd t) \<and> \<not> isspace (last t))"
proof
  assume "stripped t"
  then have e: "strip t = t" unfolding stripped_def .
  show "t = [] \<or> (\<not> isspace (hd t) \<and> \<not> isspace (last t))"
    using strip_cases[of t] unfolding e .
next
  assume a: "t = [] \<or> (\<not> isspace (hd t) \<and> \<not> isspace (last t))"
  show "stripped t"
  proof (cases "t = []")
    case True
    then show ?thesis unfolding stripped_def by (simp only: strip_Nil)
  next
    case False
    with a have "\<not> isspace (hd t)" "\<not> isspace (last t)" by blast+
    with False show ?thesis unfolding stripped_def by (rule strip_trimmed)
  qed
qed

lemma stripped_strip: "stripped (strip t)"
  unfolding stripped_iff by (rule strip_cases)






subsection \<open>Consistent states\<close>

lemma keys_ok_maps:
  assumes "dicts s"
  shows "keys_ok s \<longleftrightarrow>
    (\<forall>k b. map_of (books s) k = Some b \<longrightarrow> book_id b = k) \<and>
    (\<forall>j m. map_of (members s) j = Some m \<longrightarrow> member_id m = j)"
  using assms by (auto simp: keys_ok_def dicts_def)

lemma option_case_ex:
  "(case x of None \<Rightarrow> False | Some j \<Rightarrow> P j) \<longleftrightarrow> (\<exists>j. x = Some j \<and> P j)"
  by (cases x) auto

lemma loans_ok_maps:
  assumes "dicts s"
  shows "loans_ok s \<longleftrightarrow>
    (\<forall>k b. map_of (books s) k = Some b \<longrightarrow> is_borrowed b \<longrightarrow>
       (\<exists>j m. borrower_id b = Some j \<and> map_of (members s) j = Some m \<and>
          k \<in> set (borrowed_book_ids m))) \<and>
    (\<forall>j m. map_of (members s) j = Some m \<longrightarrow> distinct (borrowed_book_ids m) \<and>
       (\<forall>k \<in> set (borrowed_book_ids m).
          \<exists>b. map_of (books s) k = Some b \<and> is_borrowed b \<and> borrower_id b = Some j))"
proof -
  have b: "\<And>k b. (k, b) \<in> set (books s) \<longleftrightarrow> map_of (books s) k = Some b"
    and m: "\<And>j m. (j, m) \<in> set (members s) \<longleftrightarrow> map_of (members s) j = Some m"
    using assms by (simp_all add: dicts_def)
  show ?thesis
    unfolding loans_ok_def
    by (simp add: b m split_def Ball_def option_case_ex)
qed

lemma idle_ok_maps:
  assumes "dicts s"
  shows "idle_ok s \<longleftrightarrow>
    (\<forall>k b. map_of (books s) k = Some b \<longrightarrow> \<not> is_borrowed b \<longrightarrow>
       borrower_id b = None \<and> due_date b = None)"
  using assms by (auto simp: idle_ok_def dicts_def)

lemma stripped_ok_maps:
  assumes "dicts s"
  shows "stripped_ok s \<longleftrightarrow>
    (\<forall>k b. map_of (books s) k = Some b \<longrightarrow> stripped (title b) \<and> stripped (author b)) \<and>
    (\<forall>j m. map_of (members s) j = Some m \<longrightarrow> stripped (name m))"
  using assms by (auto simp: stripped_ok_def dicts_def)


lemma consistent_parts:
  assumes "consistent s"
  shows "dicts s"
    and "\<And>k b. map_of (books s) k = Some b \<Longrightarrow> book_id b = k"
    and "\<And>j m. map_of (members s) j = Some m \<Longrightarrow> member_id m = j"
    and "\<And>k b. map_of (books s) k = Some b \<Longrightarrow> is_borrowed b \<Longrightarrow>
       \<exists>j m. borrower_id b = Some j \<and> map_of (members s) j = Some m \<and> k \<in> set (borrowed_book_ids m)"
    and "\<And>j m. map_of (members s) j = Some m \<Longrightarrow> distinct (borrowed_book_ids m)"
    and "\<And>j m k. map_of (members s) j = Some m \<Longrightarrow> k \<in> set (borrowed_book_ids m) \<Longrightarrow>
       \<exists>b. map_of (books s) k = Some b \<and> is_borrowed b \<and> borrower_id b = Some j"
    and "\<And>k b. map_of (books s) k = Some b \<Longrightarrow> \<not> is_borrowed b \<Longrightarrow>
       borrower_id b = None \<and> due_date b = None"
    and "\<And>k b. map_of (books s) k = Some b \<Longrightarrow> stripped (title b) \<and> stripped (author b)"
    and "\<And>j m. map_of (members s) j = Some m \<Longrightarrow> stripped (name m)"
proof -
  from assms show d: "dicts s" by (simp add: consistent_def keys_ok_def)
  from assms have "keys_ok s" "loans_ok s" "idle_ok s" "stripped_ok s"
    by (simp_all add: consistent_def)
  note m = this[unfolded keys_ok_maps[OF d] loans_ok_maps[OF d] idle_ok_maps[OF d] stripped_ok_maps[OF d]]
  from m(1) show "\<And>k b. map_of (books s) k = Some b \<Longrightarrow> book_id b = k"
    and "\<And>j m. map_of (members s) j = Some m \<Longrightarrow> member_id m = j" by blast+
  from m(2) show "\<And>k b. map_of (books s) k = Some b \<Longrightarrow> is_borrowed b \<Longrightarrow>
       \<exists>j m. borrower_id b = Some j \<and> map_of (members s) j = Some m \<and> k \<in> set (borrowed_book_ids m)"
    by blast
  from m(2) show "\<And>j m. map_of (members s) j = Some m \<Longrightarrow> distinct (borrowed_book_ids m)"
    by blast
  from m(2) show "\<And>j m k. map_of (members s) j = Some m \<Longrightarrow> k \<in> set (borrowed_book_ids m) \<Longrightarrow>
       \<exists>b. map_of (books s) k = Some b \<and> is_borrowed b \<and> borrower_id b = Some j"
    by blast
  from m(3) show "\<And>k b. map_of (books s) k = Some b \<Longrightarrow> \<not> is_borrowed b \<Longrightarrow>
       borrower_id b = None \<and> due_date b = None"
    by blast
  from m(4) show "\<And>k b. map_of (books s) k = Some b \<Longrightarrow> stripped (title b) \<and> stripped (author b)"
    and "\<And>j m. map_of (members s) j = Some m \<Longrightarrow> stripped (name m)" by blast+
qed

lemma consistentI:
  assumes "dicts s"
    and "\<And>k b. map_of (books s) k = Some b \<Longrightarrow> book_id b = k"
    and "\<And>j m. map_of (members s) j = Some m \<Longrightarrow> member_id m = j"
    and "\<And>k b. map_of (books s) k = Some b \<Longrightarrow> is_borrowed b \<Longrightarrow>
       \<exists>j m. borrower_id b = Some j \<and> map_of (members s) j = Some m \<and> k \<in> set (borrowed_book_ids m)"
    and "\<And>j m. map_of (members s) j = Some m \<Longrightarrow> distinct (borrowed_book_ids m)"
    and "\<And>j m k. map_of (members s) j = Some m \<Longrightarrow> k \<in> set (borrowed_book_ids m) \<Longrightarrow>
       \<exists>b. map_of (books s) k = Some b \<and> is_borrowed b \<and> borrower_id b = Some j"
    and "\<And>k b. map_of (books s) k = Some b \<Longrightarrow> \<not> is_borrowed b \<Longrightarrow>
       borrower_id b = None \<and> due_date b = None"
    and "\<And>k b. map_of (books s) k = Some b \<Longrightarrow> stripped (title b) \<and> stripped (author b)"
    and "\<And>j m. map_of (members s) j = Some m \<Longrightarrow> stripped (name m)"
  shows "consistent s"
proof -
  note d = assms(1)
  have "keys_ok s" unfolding keys_ok_maps[OF d] using assms(2,3) by blast
  moreover have "loans_ok s" unfolding loans_ok_maps[OF d] using assms(4,5,6) by blast
  moreover have "idle_ok s" unfolding idle_ok_maps[OF d] using assms(7) by blast
  moreover have "stripped_ok s" unfolding stripped_ok_maps[OF d] using assms(8,9) by blast
  ultimately show ?thesis by (simp add: consistent_def)
qed

lemma consistent_empty: "consistent empty_Library"
  by (simp add: consistent_def keys_ok_def dicts_def loans_ok_def idle_ok_def stripped_ok_def
      empty_Library_def)

lemma consistent_add_book:
  assumes c: "consistent s"
  shows "consistent (snd (add_book s bid t a))"
proof (cases "map_of (books s) bid")
  case (Some b)
  with c show ?thesis by (simp add: add_book_def)
next
  case None
  note p = consistent_parts[OF c]
  let ?s = "s\<lparr>books := AList.update bid (new_Book bid (strip t) (strip a)) (books s)\<rparr>"
  have "consistent ?s"
  proof (rule consistentI)
    show "dicts ?s" using p(1) by (simp add: dicts_def distinct_update)
    show "\<And>k b. map_of (books ?s) k = Some b \<Longrightarrow> book_id b = k"
      using p(2) by (auto simp: update_conv' new_Book_def split: if_splits)
    show "\<And>j m. map_of (members ?s) j = Some m \<Longrightarrow> member_id m = j"
      using p(3) by simp
    show "\<And>k b. map_of (books ?s) k = Some b \<Longrightarrow> is_borrowed b \<Longrightarrow>
       \<exists>j m. borrower_id b = Some j \<and> map_of (members ?s) j = Some m \<and> k \<in> set (borrowed_book_ids m)"
      using p(4) by (auto simp: update_conv' new_Book_def split: if_splits)
    show "\<And>j m. map_of (members ?s) j = Some m \<Longrightarrow> distinct (borrowed_book_ids m)"
      using p(5) by simp
    show "\<And>j m k. map_of (members ?s) j = Some m \<Longrightarrow> k \<in> set (borrowed_book_ids m) \<Longrightarrow>
       \<exists>b. map_of (books ?s) k = Some b \<and> is_borrowed b \<and> borrower_id b = Some j"
    proof -
      fix j m k
      assume "map_of (members ?s) j = Some m" "k \<in> set (borrowed_book_ids m)"
      then obtain b where b: "map_of (books s) k = Some b" "is_borrowed b" "borrower_id b = Some j"
        using p(6)[of j m k] by auto
      with None have "k \<noteq> bid" by auto
      with b show "\<exists>b. map_of (books ?s) k = Some b \<and> is_borrowed b \<and> borrower_id b = Some j"
        by (simp add: update_conv')
    qed
    show "\<And>k b. map_of (books ?s) k = Some b \<Longrightarrow> \<not> is_borrowed b \<Longrightarrow>
       borrower_id b = None \<and> due_date b = None"
      using p(7) by (auto simp: update_conv' new_Book_def split: if_splits)
    show "\<And>k b. map_of (books ?s) k = Some b \<Longrightarrow> stripped (title b) \<and> stripped (author b)"
      using p(8) by (auto simp: update_conv' new_Book_def stripped_strip split: if_splits)
    show "\<And>j m. map_of (members ?s) j = Some m \<Longrightarrow> stripped (name m)"
      using p(9) by simp
  qed
  with None show ?thesis by (simp add: add_book_def)
qed

lemma consistent_add_member:
  assumes c: "consistent s"
  shows "consistent (snd (add_member s mid n))"
proof (cases "map_of (members s) mid")
  case (Some m)
  with c show ?thesis by (simp add: add_member_def)
next
  case None
  note p = consistent_parts[OF c]
  let ?s = "s\<lparr>members := AList.update mid (new_Member mid (strip n)) (members s)\<rparr>"
  have "consistent ?s"
  proof (rule consistentI)
    show "dicts ?s" using p(1) by (simp add: dicts_def distinct_update)
    show "\<And>k b. map_of (books ?s) k = Some b \<Longrightarrow> book_id b = k"
      using p(2) by simp
    show "\<And>j m. map_of (members ?s) j = Some m \<Longrightarrow> member_id m = j"
      using p(3) by (auto simp: update_conv' new_Member_def split: if_splits)
    show "\<And>k b. map_of (books ?s) k = Some b \<Longrightarrow> is_borrowed b \<Longrightarrow>
       \<exists>j m. borrower_id b = Some j \<and> map_of (members ?s) j = Some m \<and> k \<in> set (borrowed_book_ids m)"
    proof -
      fix k b
      assume "map_of (books ?s) k = Some b" "is_borrowed b"
      then obtain j m where m: "borrower_id b = Some j" "map_of (members s) j = Some m"
          "k \<in> set (borrowed_book_ids m)"
        using p(4)[of k b] by auto
      with None have "j \<noteq> mid" by auto
      with m show "\<exists>j m. borrower_id b = Some j \<and> map_of (members ?s) j = Some m \<and>
          k \<in> set (borrowed_book_ids m)"
        by (simp add: update_conv')
    qed
    show "\<And>j m. map_of (members ?s) j = Some m \<Longrightarrow> distinct (borrowed_book_ids m)"
      using p(5) by (auto simp: update_conv' new_Member_def split: if_splits)
    show "\<And>j m k. map_of (members ?s) j = Some m \<Longrightarrow> k \<in> set (borrowed_book_ids m) \<Longrightarrow>
       \<exists>b. map_of (books ?s) k = Some b \<and> is_borrowed b \<and> borrower_id b = Some j"
      using p(6) by (auto simp: update_conv' new_Member_def split: if_splits)
    show "\<And>k b. map_of (books ?s) k = Some b \<Longrightarrow> \<not> is_borrowed b \<Longrightarrow>
       borrower_id b = None \<and> due_date b = None"
      using p(7) by simp
    show "\<And>k b. map_of (books ?s) k = Some b \<Longrightarrow> stripped (title b) \<and> stripped (author b)"
      using p(8) by simp
    show "\<And>j m. map_of (members ?s) j = Some m \<Longrightarrow> stripped (name m)"
      using p(9) by (auto simp: update_conv' new_Member_def stripped_strip split: if_splits)
  qed
  with None show ?thesis by (simp add: add_member_def)
qed

lemma consistent_borrow:
  assumes c: "consistent s"
    and mb: "map_of (members s) mk = Some m" "map_of (books s) bk = Some b"
    and nb: "\<not> is_borrowed b"
  shows "consistent (s\<lparr>books := AList.update bk
          (b\<lparr>is_borrowed := True, borrower_id := Some (member_id m), due_date := Some d\<rparr>) (books s),
        members := AList.update mk
          (m\<lparr>borrowed_book_ids := borrowed_book_ids m @ [book_id b]\<rparr>) (members s),
        history := h\<rparr>)" (is "consistent ?s")
proof (rule consistentI)
  note p = consistent_parts[OF c]
  have ids: "book_id b = bk" "member_id m = mk"
    using p(2)[OF mb(2)] p(3)[OF mb(1)] by simp_all
  have free: "bk \<notin> set (borrowed_book_ids m')" if "map_of (members s) j = Some m'" for j m'
  proof
    assume "bk \<in> set (borrowed_book_ids m')"
    from p(6)[OF that this] mb(2) nb show False by simp
  qed
  show "dicts ?s" using p(1) by (simp add: dicts_def distinct_update)
  show "\<And>k b. map_of (books ?s) k = Some b \<Longrightarrow> book_id b = k"
    using p(2) ids by (auto simp: update_conv' split: if_splits)
  show "\<And>j m. map_of (members ?s) j = Some m \<Longrightarrow> member_id m = j"
    using p(3) ids by (auto simp: update_conv' split: if_splits)
  show "\<And>k b'. map_of (books ?s) k = Some b' \<Longrightarrow> is_borrowed b' \<Longrightarrow>
     \<exists>j m. borrower_id b' = Some j \<and> map_of (members ?s) j = Some m \<and> k \<in> set (borrowed_book_ids m)"
  proof -
    fix k b'
    assume a: "map_of (books ?s) k = Some b'" "is_borrowed b'"
    show "\<exists>j m. borrower_id b' = Some j \<and> map_of (members ?s) j = Some m \<and> k \<in> set (borrowed_book_ids m)"
    proof (cases "k = bk")
      case True
      with a ids show ?thesis by (auto simp: update_conv')
    next
      case False
      with a have "map_of (books s) k = Some b'" by (simp add: update_conv')
      from p(4)[OF this a(2)] obtain j m' where
        j: "borrower_id b' = Some j" "map_of (members s) j = Some m'" "k \<in> set (borrowed_book_ids m')"
        by blast
      show ?thesis
      proof (cases "j = mk")
        case True
        with j mb(1) show ?thesis by (auto simp: update_conv')
      next
        case False
        with j show ?thesis by (auto simp: update_conv')
      qed
    qed
  qed
  show "\<And>j m. map_of (members ?s) j = Some m \<Longrightarrow> distinct (borrowed_book_ids m)"
    using p(5) free[OF mb(1)] mb(1) ids by (auto simp: update_conv' split: if_splits)
  show "\<And>j m' k. map_of (members ?s) j = Some m' \<Longrightarrow> k \<in> set (borrowed_book_ids m') \<Longrightarrow>
     \<exists>b. map_of (books ?s) k = Some b \<and> is_borrowed b \<and> borrower_id b = Some j"
  proof -
    fix j m' k
    assume a: "map_of (members ?s) j = Some m'" "k \<in> set (borrowed_book_ids m')"
    show "\<exists>b. map_of (books ?s) k = Some b \<and> is_borrowed b \<and> borrower_id b = Some j"
    proof (cases "k = bk")
      case True
      have "j = mk"
      proof (rule ccontr)
        assume "j \<noteq> mk"
        with a(1) have "map_of (members s) j = Some m'" by (simp add: update_conv')
        from free[OF this] a(2) True show False by simp
      qed
      with True ids show ?thesis by (simp add: update_conv')
    next
      case False
      have "\<exists>m0. map_of (members s) j = Some m0 \<and> k \<in> set (borrowed_book_ids m0)"
        using a False mb(1) ids by (auto simp: update_conv' split: if_splits)
      then obtain m0 where "map_of (members s) j = Some m0" "k \<in> set (borrowed_book_ids m0)"
        by blast
      from p(6)[OF this] False show ?thesis by (simp add: update_conv')
    qed
  qed
  show "\<And>k b. map_of (books ?s) k = Some b \<Longrightarrow> \<not> is_borrowed b \<Longrightarrow>
     borrower_id b = None \<and> due_date b = None"
    using p(7) by (auto simp: update_conv' split: if_splits)
  show "\<And>k b'. map_of (books ?s) k = Some b' \<Longrightarrow> stripped (title b') \<and> stripped (author b')"
    using p(8) mb(2) by (auto simp: update_conv' split: if_splits)
  show "\<And>j m'. map_of (members ?s) j = Some m' \<Longrightarrow> stripped (name m')"
    using p(9) mb(1) by (auto simp: update_conv' split: if_splits)
qed

lemma consistent_return:
  assumes c: "consistent s"
    and mb: "map_of (members s) mk = Some m" "map_of (books s) bk = Some b"
    and held: "is_borrowed b" "borrower_id b = Some (member_id m)"
  shows "consistent (s\<lparr>books := AList.update bk
          (b\<lparr>is_borrowed := False, borrower_id := None, due_date := None\<rparr>) (books s),
        members := AList.update mk
          (m\<lparr>borrowed_book_ids := remove1 (book_id b) (borrowed_book_ids m)\<rparr>) (members s),
        history := h\<rparr>)" (is "consistent ?s")
proof (rule consistentI)
  note p = consistent_parts[OF c]
  have ids: "book_id b = bk" "member_id m = mk"
    using p(2)[OF mb(2)] p(3)[OF mb(1)] by simp_all
  have dm: "distinct (borrowed_book_ids m)" by (rule p(5)[OF mb(1)])
  have others: "bk \<notin> set (borrowed_book_ids m')"
    if "map_of (members s) j = Some m'" "j \<noteq> mk" for j m'
  proof
    assume "bk \<in> set (borrowed_book_ids m')"
    from p(6)[OF that(1) this] mb(2) held ids that(2) show False by simp
  qed
  show "dicts ?s" using p(1) by (simp add: dicts_def distinct_update)
  show "\<And>k b. map_of (books ?s) k = Some b \<Longrightarrow> book_id b = k"
    using p(2) ids by (auto simp: update_conv' split: if_splits)
  show "\<And>j m. map_of (members ?s) j = Some m \<Longrightarrow> member_id m = j"
    using p(3) ids by (auto simp: update_conv' split: if_splits)
  show "\<And>k b'. map_of (books ?s) k = Some b' \<Longrightarrow> is_borrowed b' \<Longrightarrow>
     \<exists>j m. borrower_id b' = Some j \<and> map_of (members ?s) j = Some m \<and> k \<in> set (borrowed_book_ids m)"
  proof -
    fix k b'
    assume a: "map_of (books ?s) k = Some b'" "is_borrowed b'"
    then have k: "k \<noteq> bk" by (auto simp: update_conv' split: if_splits)
    with a have "map_of (books s) k = Some b'" by (simp add: update_conv')
    from p(4)[OF this a(2)] obtain j m' where
      j: "borrower_id b' = Some j" "map_of (members s) j = Some m'" "k \<in> set (borrowed_book_ids m')"
      by blast
    show "\<exists>j m. borrower_id b' = Some j \<and> map_of (members ?s) j = Some m \<and> k \<in> set (borrowed_book_ids m)"
    proof (cases "j = mk")
      case True
      with j mb(1) k ids show ?thesis by (auto simp: update_conv')
    next
      case False
      with j show ?thesis by (auto simp: update_conv')
    qed
  qed
  show "\<And>j m. map_of (members ?s) j = Some m \<Longrightarrow> distinct (borrowed_book_ids m)"
    using p(5) dm by (auto simp: update_conv' split: if_splits)
  show "\<And>j m' k. map_of (members ?s) j = Some m' \<Longrightarrow> k \<in> set (borrowed_book_ids m') \<Longrightarrow>
     \<exists>b. map_of (books ?s) k = Some b \<and> is_borrowed b \<and> borrower_id b = Some j"
  proof -
    fix j m' k
    assume a: "map_of (members ?s) j = Some m'" "k \<in> set (borrowed_book_ids m')"
    have "k \<noteq> bk \<and> (\<exists>m0. map_of (members s) j = Some m0 \<and> k \<in> set (borrowed_book_ids m0))"
    proof (cases "j = mk")
      case True
      with a have "k \<in> set (remove1 bk (borrowed_book_ids m))"
        using ids by (auto simp: update_conv')
      with dm have "k \<noteq> bk" "k \<in> set (borrowed_book_ids m)" by auto
      with True mb(1) show ?thesis by simp
    next
      case False
      with a have m': "map_of (members s) j = Some m'" by (simp add: update_conv')
      from others[OF this False] a(2) m' show ?thesis by auto
    qed
    then obtain m0 where k: "k \<noteq> bk" and m0: "map_of (members s) j = Some m0"
        "k \<in> set (borrowed_book_ids m0)" by blast
    from p(6)[OF m0] k show "\<exists>b. map_of (books ?s) k = Some b \<and> is_borrowed b \<and> borrower_id b = Some j"
      by (simp add: update_conv')
  qed
  show "\<And>k b. map_of (books ?s) k = Some b \<Longrightarrow> \<not> is_borrowed b \<Longrightarrow>
     borrower_id b = None \<and> due_date b = None"
    using p(7) by (auto simp: update_conv' split: if_splits)
  show "\<And>k b'. map_of (books ?s) k = Some b' \<Longrightarrow> stripped (title b') \<and> stripped (author b')"
    using p(8) mb(2) by (auto simp: update_conv' split: if_splits)
  show "\<And>j m'. map_of (members ?s) j = Some m' \<Longrightarrow> stripped (name m')"
    using p(9) mb(1) by (auto simp: update_conv' split: if_splits)
qed

lemma consistent_borrow_book:
  assumes c: "consistent s"
  shows "consistent (snd (borrow_book s now stamp mkey bkey bt bn))"
proof (cases "fst (fst (borrow_book s now stamp mkey bkey bt bn))")
  case False
  then obtain msg s' where "borrow_book s now stamp mkey bkey bt bn = ((False, msg), s')"
    by (metis prod.collapse)
  moreover from this have "s' = s"
    using failure_keeps_state[of s "Borrow_book now stamp mkey bkey bt bn" msg s'] by simp
  ultimately show ?thesis using c by simp
next
  case True
  then obtain msg s' where e: "borrow_book s now stamp mkey bkey bt bn = ((True, msg), s')"
    by (metis prod.collapse)
  from borrow_book_success[OF e] obtain mk m bk b where
    r: "resolve_member s mkey bn = Some (mk, m)" "resolve_book s bkey bt = Some (bk, b)"
      "\<not> is_borrowed b"
    and s': "s' = s\<lparr>books := AList.update bk (b\<lparr>is_borrowed := True, borrower_id := Some (member_id m),
           due_date := Some (strftime (now + timedelta_days 7))\<rparr>) (books s),
           members := AList.update mk (m\<lparr>borrowed_book_ids := borrowed_book_ids m @ [book_id b]\<rparr>) (members s),
           history := history s @ [Borrow_entry (strftime stamp) (book_id b) (member_id m) (strftime (now + timedelta_days 7))]\<rparr>"
    by blast
  have d: "dicts s" by (rule consistent_parts(1)[OF c])
  have "consistent s'"
    unfolding s'
    by (rule consistent_borrow[OF c resolve_member_stored[OF d r(1)] resolve_book_stored[OF d r(2)] r(3)])
  with e show ?thesis by simp
qed

lemma consistent_return_book:
  assumes c: "consistent s"
  shows "consistent (snd (return_book s now stamp mkey bkey bt bn))"
proof (cases "fst (fst (return_book s now stamp mkey bkey bt bn))")
  case False
  then obtain msg s' where "return_book s now stamp mkey bkey bt bn = ((False, msg), s')"
    by (metis prod.collapse)
  moreover from this have "s' = s"
    using failure_keeps_state[of s "Return_book now stamp mkey bkey bt bn" msg s'] by simp
  ultimately show ?thesis using c by simp
next
  case True
  then obtain msg s' where e: "return_book s now stamp mkey bkey bt bn = ((True, msg), s')"
    by (metis prod.collapse)
  from return_book_success[OF e] obtain mk m bk b where
    r: "resolve_member s mkey bn = Some (mk, m)" "resolve_book s bkey bt = Some (bk, b)"
      "is_borrowed b" "borrower_id b = Some (member_id m)"
    and s': "s' = s\<lparr>books := AList.update bk (b\<lparr>is_borrowed := False, borrower_id := None, due_date := None\<rparr>) (books s),
           members := AList.update mk (m\<lparr>borrowed_book_ids := remove1 (book_id b) (borrowed_book_ids m)\<rparr>) (members s),
           history := history s @ [Return_entry (strftime stamp) (book_id b) (member_id m) (fine_calculation now (due_date b))]\<rparr>"
    by blast
  have d: "dicts s" by (rule consistent_parts(1)[OF c])
  have "consistent s'"
    unfolding s'
    by (rule consistent_return[OF c resolve_member_stored[OF d r(1)] resolve_book_stored[OF d r(2)] r(3,4)])
  with e show ?thesis by simp
qed

lemma consistent_step: "consistent s \<Longrightarrow> consistent (snd (step s x))"
  by (cases x)
    (simp_all add: consistent_add_book consistent_add_member consistent_borrow_book
      consistent_return_book)

lemma consistent_run: "consistent s \<Longrightarrow> consistent (run s xs)"
  by (induction xs arbitrary: s) (simp_all add: consistent_step)

section \<open>Properties of app.py\<close>

subsection \<open>Copy counts\<close>

lemma first_titled_bound:
  "first_titled bs t = Some i \<Longrightarrow> i < length bs"
  by (induction bs arbitrary: i) (auto split: if_splits)

lemma search_book_found:
  assumes "search_book s t = Inr (i, b)"
  shows "i < length (app_books s)" "b = app_books s ! i"
  using assms by (auto simp: search_book_def split: option.splits dest: first_titled_bound)

lemma app_borrow_book_books:
  "app_books (snd (app_borrow_book s mid t)) = app_books s \<or>
   (\<exists>i b. i < length (app_books s) \<and> b = app_books s ! i \<and> 0 < available_copies b \<and>
      app_books (snd (app_borrow_book s mid t)) =
        (app_books s)[i := b\<lparr>available_copies := available_copies b - 1\<rparr>])"
proof (cases "get_member s mid")
  case (Inl e)
  then show ?thesis by (simp add: app_borrow_book_def)
next
  case (Inr m)
  show ?thesis
  proof (cases "search_book s t")
    case (Inl e)
    with Inr show ?thesis by (simp add: app_borrow_book_def)
  next
    case found: (Inr p)
    obtain i b where p: "p = (i, b)" by (cases p)
    from found p have ib: "i < length (app_books s)" "b = app_books s ! i"
      by (auto dest: search_book_found)
    show ?thesis
    proof (cases "available_copies b \<le> 0")
      case True
      with Inr found p show ?thesis
        by (simp add: app_borrow_book_def Member_borrow_book_def)
    next
      case False
      with Inr found p have "app_books (snd (app_borrow_book s mid t)) =
          (app_books s)[i := b\<lparr>available_copies := available_copies b - 1\<rparr>]"
        by (simp add: app_borrow_book_def Member_borrow_book_def)
      with ib False show ?thesis by force
    qed
  qed
qed

lemma app_return_book_books:
  "app_books (snd (app_return_book s mid t)) = app_books s \<or>
   (\<exists>i b. i < length (app_books s) \<and> b = app_books s ! i \<and>
      app_books (snd (app_return_book s mid t)) =
        (app_books s)[i := b\<lparr>available_copies := min (available_copies b + 1) (total_copies b)\<rparr>])"
proof (cases "get_member s mid")
  case (Inl e)
  then show ?thesis by (simp add: app_return_book_def)
next
  case (Inr m)
  show ?thesis
  proof (cases "search_book s t")
    case (Inl e)
    with Inr show ?thesis by (simp add: app_return_book_def)
  next
    case found: (Inr p)
    obtain i b where p: "p = (i, b)" by (cases p)
    from found p have ib: "i < length (app_books s)" "b = app_books s ! i"
      by (auto dest: search_book_found)
    show ?thesis
    proof (cases "app_book_id b \<in> set (borrowed_books m)")
      case True
      with Inr found p have "app_books (snd (app_return_book s mid t)) =
          (app_books s)[i := b\<lparr>available_copies := min (available_copies b + 1) (total_copies b)\<rparr>]"
        by (simp add: app_return_book_def Member_return_book_def)
      with ib show ?thesis by force
    next
      case False
      with Inr found p ib have "app_books (snd (app_return_book s mid t)) = app_books s"
        by (simp add: app_return_book_def Member_return_book_def)
      then show ?thesis by simp
    qed
  qed
qed

lemma app_step_books:
  "app_books (app_step s x) = app_books s \<or>
   (\<exists>bid t a c. x = App_add_book bid t a c \<and> app_books (app_step s x) = app_books s @ [app_new_Book bid t a c None]) \<or>
   (\<exists>i b. i < length (app_books s) \<and> b = app_books s ! i \<and> 0 < available_copies b \<and>
      app_books (app_step s x) = (app_books s)[i := b\<lparr>available_copies := available_copies b - 1\<rparr>]) \<or>
   (\<exists>i b. i < length (app_books s) \<and> b = app_books s ! i \<and>
      app_books (app_step s x) = (app_books s)[i := b\<lparr>available_copies := min (available_copies b + 1) (total_copies b)\<rparr>])"
proof (cases x)
  case (App_add_book bid t a c)
  then show ?thesis by (simp add: app_add_book_def app_Library_add_book_def)
next
  case (App_add_member mid n)
  then show ?thesis by (simp add: app_add_member_def app_Library_add_member_def)
next
  case (App_borrow_book mid t)
  with app_borrow_book_books[of s mid t] show ?thesis by auto
next
  case (App_return_book mid t)
  with app_return_book_books[of s mid t] show ?thesis by auto
qed

lemma copies_bounded_step:
  assumes "copies_bounded s"
  shows "copies_bounded (app_step s x)"
proof -
  have a: "\<And>b. b \<in> set (app_books s) \<Longrightarrow> available_copies b \<le> total_copies b"
    using assms by (simp add: copies_bounded_def)
  from app_step_books[of s x] show ?thesis
  proof (elim disjE exE conjE)
    assume "app_books (app_step s x) = app_books s"
    with assms show ?thesis by (simp add: copies_bounded_def)
  next
    fix bid t a c
    assume "app_books (app_step s x) = app_books s @ [app_new_Book bid t a c None]"
    with a show ?thesis by (auto simp: copies_bounded_def app_new_Book_def)
  next
    fix i b
    assume i: "i < length (app_books s)" "b = app_books s ! i"
      and e: "app_books (app_step s x) = (app_books s)[i := b\<lparr>available_copies := available_copies b - 1\<rparr>]"
    from i have "available_copies b \<le> total_copies b" using a by simp
    with a show ?thesis
      unfolding copies_bounded_def e by (auto dest!: set_update_subset_insert[THEN subsetD])
  next
    fix i b
    assume i: "i < length (app_books s)" "b = app_books s ! i"
      and e: "app_books (app_step s x) = (app_books s)[i := b\<lparr>available_copies := min (available_copies b + 1) (total_copies b)\<rparr>]"
    with a show ?thesis
      unfolding copies_bounded_def e by (auto dest!: set_update_subset_insert[THEN subsetD])
  qed
qed

lemma copies_in_range_step:
  assumes "copies_in_range s" "\<forall>c. copies_added x = Some c \<longrightarrow> 0 \<le> c"
  shows "copies_in_range (app_step s x)"
proof -
  have a: "\<And>b. b \<in> set (app_books s) \<Longrightarrow> 0 \<le> available_copies b \<and> available_copies b \<le> total_copies b"
    using assms by (simp add: copies_in_range_def)
  from app_step_books[of s x] show ?thesis
  proof (elim disjE exE conjE)
    assume "app_books (app_step s x) = app_books s"
    with assms show ?thesis by (simp add: copies_in_range_def)
  next
    fix bid t a c
    assume "x = App_add_book bid t a c" "app_books (app_step s x) = app_books s @ [app_new_Book bid t a c None]"
    with a assms(2) show ?thesis by (auto simp: copies_in_range_def app_new_Book_def)
  next
    fix i b
    assume i: "i < length (app_books s)" "b = app_books s ! i" "0 < available_copies b"
      and e: "app_books (app_step s x) = (app_books s)[i := b\<lparr>available_copies := available_copies b - 1\<rparr>]"
    from i have "available_copies b \<le> total_copies b" using a by simp
    with a i(3) show ?thesis
      unfolding copies_in_range_def e by (auto dest!: set_update_subset_insert[THEN subsetD])
  next
    fix i b
    assume i: "i < length (app_books s)" "b = app_books s ! i"
      and e: "app_books (app_step s x) = (app_books s)[i := b\<lparr>available_copies := min (available_copies b + 1) (total_copies b)\<rparr>]"
    from i have "0 \<le> available_copies b \<and> available_copies b \<le> total_copies b" using a by simp
    with a show ?thesis
      unfolding copies_in_range_def e by (auto dest!: set_update_subset_insert[THEN subsetD])
  qed
qed

lemma copies_bounded_run: "copies_bounded s \<Longrightarrow> copies_bounded (app_run s xs)"
  by (induction xs arbitrary: s) (simp_all add: copies_bounded_step)

lemma copies_in_range_run:
  "copies_in_range s \<Longrightarrow> \<forall>x \<in> set xs. \<forall>c. copies_added x = Some c \<longrightarrow> 0 \<le> c \<Longrightarrow>
     copies_in_range (app_run s xs)"
  by (induction xs arbitrary: s) (simp_all add: copies_in_range_step)

lemma app_empty_in_range: "copies_in_range app_empty_Library" "copies_bounded app_empty_Library"
  by (simp_all add: copies_in_range_def copies_bounded_def app_empty_Library_def)

text \<open>
  C1, amended. From a state in which no book has more available than total copies,
  every sequence of operations of \<^verbatim>\<open>app.py\<close> leads to such a state; and from a state
  in which every book has \<open>0 \<le> available_copies \<le> total_copies\<close>, every sequence whose
  added books have a number of copies that is not negative leads to such a state.
\<close>

theorem copies_stay_in_range:
  "(copies_bounded s \<longrightarrow> copies_bounded (app_run s xs)) \<and>
   (copies_in_range s \<and> (\<forall>x \<in> set xs. adds_no_negative x) \<longrightarrow> copies_in_range (app_run s xs))"
proof (intro conjI impI)
  assume "copies_bounded s"
  then show "copies_bounded (app_run s xs)" by (rule copies_bounded_run)
next
  assume a: "copies_in_range s \<and> (\<forall>x \<in> set xs. adds_no_negative x)"
  then have "\<forall>x \<in> set xs. \<forall>c. copies_added x = Some c \<longrightarrow> 0 \<le> c"
    by (auto split: option.splits)
  with a show "copies_in_range (app_run s xs)"
    by (intro copies_in_range_run) simp_all
qed

theorem copies_stay_in_range_witness:
  "copies_bounded app_empty_Library \<and>
   copies_bounded (app_run app_empty_Library
     [App_add_book 1 ''Dune'' ''Herbert'' (- 1), App_add_member 1 ''Alice'', App_borrow_book 1 ''Dune'']) \<and>
   copies_in_range app_empty_Library \<and>
   list_all adds_no_negative [App_add_book 1 ''Dune'' ''Herbert'' 2, App_add_member 1 ''Alice'',
      App_borrow_book 1 ''Dune'', App_return_book 1 ''Dune''] \<and>
   copies_in_range (app_run app_empty_Library
     [App_add_book 1 ''Dune'' ''Herbert'' 2, App_add_member 1 ''Alice'',
      App_borrow_book 1 ''Dune'', App_return_book 1 ''Dune''])"
proof -
  let ?xs = "[App_add_book 1 ''Dune'' ''Herbert'' 2, App_add_member 1 ''Alice'',
      App_borrow_book 1 ''Dune'', App_return_book 1 ''Dune'']"
  have h: "\<forall>x \<in> set ?xs. adds_no_negative x"
    by simp
  have a: "copies_bounded (app_run app_empty_Library
     [App_add_book 1 ''Dune'' ''Herbert'' (- 1), App_add_member 1 ''Alice'', App_borrow_book 1 ''Dune''])"
    by (rule copies_stay_in_range[THEN conjunct1, rule_format]) (rule app_empty_in_range)
  have b: "copies_in_range (app_run app_empty_Library ?xs)"
    by (rule copies_stay_in_range[THEN conjunct2, rule_format, OF conjI, OF _ h])
      (rule app_empty_in_range)
  have c: "list_all adds_no_negative ?xs"
    by simp
  from a b c app_empty_in_range show ?thesis
    by (intro conjI)
qed

text \<open>Adding a book with \<open>- 1\<close> copies leaves it with \<open>- 1\<close> available copies.\<close>

theorem negative_copies_counterexample:
  "\<not> copies_in_range (app_run app_empty_Library [App_add_book 1 ''Dune'' ''Herbert'' (- 1)])"
  by (simp add: copies_in_range_def app_empty_Library_def app_add_book_def app_Library_add_book_def
      app_new_Book_def)

subsection \<open>What app.py does not check\<close>

text \<open>
  \<^verbatim>\<open>add_member\<close> of \<^verbatim>\<open>app.py\<close> replaces the member stored under the identifier, and
  \<^verbatim>\<open>add_book\<close> appends a second book with the identifier.
\<close>

theorem app_duplicate_counterexample:
  "map_of (app_members app_dune_borrowed) 1 =
     Some ((app_new_Member 1 ''Alice'')\<lparr>borrowed_books := [1]\<rparr>) \<and>
   map_of (app_members (app_add_member app_dune_borrowed 1 ''Bob'')) 1 = Some (app_new_Member 1 ''Bob'') \<and>
   app_add_member app_dune_borrowed 1 ''Bob'' \<noteq> app_dune_borrowed \<and>
   map (app_book_id) (app_books (app_add_book app_dune_library 1 ''Emma'' ''Austen'' 2)) = [1, 1]"
  by (simp add: app_dune_borrowed_def app_dune_library_def app_add_member_def app_Library_add_member_def
      app_add_book_def app_Library_add_book_def app_new_Member_def app_new_Book_def)

section \<open>Properties of both programs\<close>

lemma app_dune_borrowed_resolve:
  "get_member app_dune_borrowed 1 = Inr ((app_new_Member 1 ''Alice'')\<lparr>borrowed_books := [1]\<rparr>)"
  "search_book app_dune_borrowed ''Dune'' =
     Inr (0, (app_new_Book 1 ''Dune'' ''Herbert'' 1 None)\<lparr>available_copies := 0\<rparr>)"
  by (simp_all add: get_member_def search_book_def app_dune_borrowed_def app_new_Book_def)

text \<open>
  C2. When the member and the book are found and the book has no copy to lend (it is
  borrowed, in \<^verbatim>\<open>Web.py\<close>; its \<open>available_copies\<close> is 0, in \<^verbatim>\<open>app.py\<close>), the borrow
  fails, with "Book already borrowed." or with \<^verbatim>\<open>AlreadyBorrowedError\<close>, and the state
  is the one it was given.
\<close>

theorem borrow_without_copy:
  "(resolve_member s mkey bn = Some (mk, m) \<and> resolve_book s bkey bt = Some (bk, b) \<and> is_borrowed b \<longrightarrow>
      borrow_book s now stamp mkey bkey bt bn = ((False, Book_already_borrowed), s)) \<and>
   (get_member a mid = Inr am \<and> search_book a t = Inr (i, ab) \<and> available_copies ab = 0 \<longrightarrow>
      app_borrow_book a mid t = (Inl AlreadyBorrowedError, a))"
  by (simp add: borrow_book_def app_borrow_book_def Member_borrow_book_def)

theorem borrow_without_copy_witness:
  "resolve_member dune_borrowed ''M1'' False =
     Some (''M1'', (new_Member ''M1'' ''Alice'')\<lparr>borrowed_book_ids := [''B1'']\<rparr>) \<and>
   resolve_book dune_borrowed ''B1'' False =
     Some (''B1'', (new_Book ''B1'' ''Dune'' ''Herbert'')
        \<lparr>is_borrowed := True, borrower_id := Some ''M1'', due_date := Some (Minute 10080)\<rparr>) \<and>
   borrow_book dune_borrowed 5 5 ''M1'' ''B1'' False False = ((False, Book_already_borrowed), dune_borrowed) \<and>
   get_member app_dune_borrowed 1 = Inr ((app_new_Member 1 ''Alice'')\<lparr>borrowed_books := [1]\<rparr>) \<and>
   search_book app_dune_borrowed ''Dune'' =
     Inr (0, (app_new_Book 1 ''Dune'' ''Herbert'' 1 None)\<lparr>available_copies := 0\<rparr>) \<and>
   app_borrow_book app_dune_borrowed 1 ''Dune'' = (Inl AlreadyBorrowedError, app_dune_borrowed)"
proof -
  note parts = borrow_without_copy[THEN conjunct1, rule_format]
    borrow_without_copy[THEN conjunct2, rule_format]
  have "borrow_book dune_borrowed 5 5 ''M1'' ''B1'' False False =
      ((False, Book_already_borrowed), dune_borrowed)"
    by (rule parts(1)[OF conjI, OF dune_borrowed_resolve(1), OF conjI, OF dune_borrowed_resolve(2)])
      (simp add: new_Book_def)
  moreover have "app_borrow_book app_dune_borrowed 1 ''Dune'' = (Inl AlreadyBorrowedError, app_dune_borrowed)"
    by (rule parts(2)[OF conjI, OF app_dune_borrowed_resolve(1), OF conjI, OF app_dune_borrowed_resolve(2)])
      (simp add: app_new_Book_def)
  ultimately show ?thesis
    using dune_borrowed_resolve app_dune_borrowed_resolve by simp
qed

section \<open>History, loans and lookups\<close>

lemma step_history:
  "(fst (fst (step s x)) \<and> is_lending x \<and>
      (\<exists>e. history (snd (step s x)) = history s @ [e] \<and> records e x)) \<or>
   (\<not> (fst (fst (step s x)) \<and> is_lending x) \<and> history (snd (step s x)) = history s)"
proof (cases x)
  case (Add_book bid t a)
  then show ?thesis by (simp add: add_book_def)
next
  case (Add_member mid n)
  then show ?thesis by (simp add: add_member_def)
next
  case (Borrow_book now stamp mkey bkey bt bn)
  obtain ok msg s' where e: "borrow_book s now stamp mkey bkey bt bn = ((ok, msg), s')"
    by (metis prod.collapse)
  show ?thesis
  proof (cases ok)
    case True
    with e borrow_book_success[of s now stamp mkey bkey bt bn msg s'] Borrow_book
    show ?thesis by auto
  next
    case False
    with e failure_keeps_state[of s x msg s'] Borrow_book show ?thesis by simp
  qed
next
  case (Return_book now stamp mkey bkey bt bn)
  obtain ok msg s' where e: "return_book s now stamp mkey bkey bt bn = ((ok, msg), s')"
    by (metis prod.collapse)
  show ?thesis
  proof (cases ok)
    case True
    with e return_book_success[of s now stamp mkey bkey bt bn msg s'] Return_book
    show ?thesis by auto
  next
    case False
    with e failure_keeps_state[of s x msg s'] Return_book show ?thesis by simp
  qed
qed

lemma run_history:
  "\<exists>es. history (run s xs) = history s @ es \<and> list_all2 records es (successes s xs)"
proof (induction xs arbitrary: s)
  case Nil
  then show ?case by simp
next
  case (Cons x xs)
  from Cons.IH[of "snd (step s x)"] obtain es where
    es: "history (run (snd (step s x)) xs) = history (snd (step s x)) @ es"
      "list_all2 records es (successes (snd (step s x)) xs)"
    by blast
  from step_history[of s x] show ?case
  proof (elim disjE conjE exE)
    fix e
    assume "fst (fst (step s x))" "is_lending x" "history (snd (step s x)) = history s @ [e]"
      "records e x"
    with es have "history (run s (x # xs)) = history s @ (e # es) \<and>
        list_all2 records (e # es) (successes s (x # xs))"
      by simp
    then show ?thesis by blast
  next
    assume "\<not> (fst (fst (step s x)) \<and> is_lending x)" "history (snd (step s x)) = history s"
    with es have "history (run s (x # xs)) = history s @ es \<and>
        list_all2 records es (successes s (x # xs))"
      by auto
    then show ?thesis by blast
  qed
qed

text \<open>
  C6. A borrow or return that succeeds appends one entry to the history, the record of
  that operation; an operation that fails returns the state it was given; adding a book
  or a member leaves the history as it is. After a sequence of operations the history
  is the old history followed by one entry for each borrow or return that succeeded, in
  the order the operations were made.
\<close>

theorem history_grows:
  "(is_lending x \<and> fst (fst (step s x)) \<longrightarrow>
      (\<exists>e. history (snd (step s x)) = history s @ [e] \<and> records e x)) \<and>
   (\<not> fst (fst (step sa xa)) \<longrightarrow> snd (step sa xa) = sa) \<and>
   (\<not> is_lending xb \<longrightarrow> history (snd (step sb xb)) = history sb) \<and>
   (\<exists>es. history (run sc xs) = history sc @ es \<and> list_all2 records es (successes sc xs))"
proof (intro conjI impI)
  assume "is_lending x \<and> fst (fst (step s x))"
  with step_history[of s x]
  show "\<exists>e. history (snd (step s x)) = history s @ [e] \<and> records e x" by blast
next
  assume "\<not> fst (fst (step sa xa))"
  then obtain msg s' where "step sa xa = ((False, msg), s')" by (metis prod.collapse)
  then show "snd (step sa xa) = sa" using failure_keeps_state[of sa xa msg s'] by simp
next
  assume "\<not> is_lending xb"
  with step_history[of sb xb] show "history (snd (step sb xb)) = history sb" by blast
next
  show "\<exists>es. history (run sc xs) = history sc @ es \<and> list_all2 records es (successes sc xs)"
    by (rule run_history)
qed


lemma dune_borrow_again:
  "borrow_book dune_borrowed 5 5 ''M1'' ''B1'' False False =
     ((False, Book_already_borrowed), dune_borrowed)"
  unfolding borrow_book_def dune_borrowed_resolve by (simp add: new_Book_def)

lemma dune_borrowed_run:
  "run empty_Library [Add_book ''B1'' ''Dune'' ''Herbert'', Add_member ''M1'' ''Alice'',
     Borrow_book 0 0 ''M1'' ''B1'' False False] = dune_borrowed"
proof -
  have "run empty_Library ([Add_book ''B1'' ''Dune'' ''Herbert'', Add_member ''M1'' ''Alice''] @
     [Borrow_book 0 0 ''M1'' ''B1'' False False]) =
     run (run empty_Library [Add_book ''B1'' ''Dune'' ''Herbert'', Add_member ''M1'' ''Alice''])
       [Borrow_book 0 0 ''M1'' ''B1'' False False]"
    by simp
  then show ?thesis
    unfolding dune_library_run by (simp add: dune_borrow)
qed

theorem history_grows_witness:
  "is_lending (Borrow_book 0 0 ''M1'' ''B1'' False False) \<and>
   step dune_library (Borrow_book 0 0 ''M1'' ''B1'' False False) =
     ((True, Borrowed ''Alice'' ''Dune'' (Minute 10080)), dune_borrowed) \<and>
   (\<exists>e. history dune_borrowed = history dune_library @ [e] \<and>
      records e (Borrow_book 0 0 ''M1'' ''B1'' False False)) \<and>
   step dune_borrowed (Borrow_book 5 5 ''M1'' ''B1'' False False) =
     ((False, Book_already_borrowed), dune_borrowed) \<and>
   history (snd (step dune_library (Add_book ''B2'' ''Emma'' ''Austen''))) = history dune_library \<and>
   (\<exists>es. history (run dune_library [Borrow_book 0 0 ''M1'' ''B1'' False False,
        Borrow_book 5 5 ''M1'' ''B1'' False False]) = history dune_library @ es \<and>
      list_all2 records es (successes dune_library [Borrow_book 0 0 ''M1'' ''B1'' False False,
        Borrow_book 5 5 ''M1'' ''B1'' False False]))"
proof -
  let ?b = "Borrow_book 0 0 ''M1'' ''B1'' False False"
  let ?c = "Borrow_book 5 5 ''M1'' ''B1'' False False"
  have b: "step dune_library ?b = ((True, Borrowed ''Alice'' ''Dune'' (Minute 10080)), dune_borrowed)"
    by (simp add: dune_borrow)
  have c: "step dune_borrowed ?c = ((False, Book_already_borrowed), dune_borrowed)"
    by (simp add: dune_borrow_again)
  have 1: "\<exists>e. history dune_borrowed = history dune_library @ [e] \<and> records e ?b"
    using history_grows[THEN conjunct1, rule_format, of ?b dune_library] b by simp
  have 2: "snd (step dune_borrowed ?c) = dune_borrowed"
    using history_grows[THEN conjunct2, THEN conjunct1, rule_format, of dune_borrowed ?c] c by simp
  have 3: "history (snd (step dune_library (Add_book ''B2'' ''Emma'' ''Austen''))) = history dune_library"
    by (rule history_grows[THEN conjunct2, THEN conjunct2, THEN conjunct1, rule_format]) simp
  have 4: "\<exists>es. history (run dune_library [?b, ?c]) = history dune_library @ es \<and>
      list_all2 records es (successes dune_library [?b, ?c])"
    by (rule history_grows[THEN conjunct2, THEN conjunct2, THEN conjunct2])
  have 0: "is_lending ?b" by simp
  from 0 b 1 c 3 4 show ?thesis by (intro conjI)
qed

lemma run_members_distinct:
  assumes "consistent s" "(j, m) \<in> set (members (run s xs))"
  shows "distinct (borrowed_book_ids m)"
proof -
  note p = consistent_parts[OF consistent_run[OF assms(1), of xs]]
  from p(1) assms(2) have "map_of (members (run s xs)) j = Some m"
    by (simp add: dicts_def)
  then show ?thesis by (rule p(5))
qed

text \<open>
  C9, amended to \<^verbatim>\<open>Web.py\<close>. After every sequence of operations from a consistent
  state (the empty library is one), no member's list of borrowed book identifiers names
  a book twice.
\<close>

theorem borrowed_ids_distinct:
  "consistent s \<and> (j, m) \<in> set (members (run s xs)) \<longrightarrow> distinct (borrowed_book_ids m)"
  using run_members_distinct by blast

theorem borrowed_ids_distinct_witness:
  "consistent empty_Library \<and>
   (''M1'', (new_Member ''M1'' ''Alice'')\<lparr>borrowed_book_ids := [''B1'']\<rparr>) \<in>
     set (members (run empty_Library [Add_book ''B1'' ''Dune'' ''Herbert'', Add_member ''M1'' ''Alice'',
       Borrow_book 0 0 ''M1'' ''B1'' False False])) \<and>
   distinct (borrowed_book_ids ((new_Member ''M1'' ''Alice'')\<lparr>borrowed_book_ids := [''B1'']\<rparr>))"
proof -
  have m: "(''M1'', (new_Member ''M1'' ''Alice'')\<lparr>borrowed_book_ids := [''B1'']\<rparr>) \<in>
     set (members (run empty_Library [Add_book ''B1'' ''Dune'' ''Herbert'', Add_member ''M1'' ''Alice'',
       Borrow_book 0 0 ''M1'' ''B1'' False False]))"
    unfolding dune_borrowed_run by (simp add: dune_borrowed_def)
  from borrowed_ids_distinct[rule_format, OF conjI, OF consistent_empty m] consistent_empty m
  show ?thesis by (intro conjI)
qed

text \<open>
  In \<^verbatim>\<open>app.py\<close> a member who borrows both copies of a book has its identifier twice.
\<close>

theorem app_two_copies_counterexample:
  "map (borrowed_books \<circ> snd) (app_members (app_run app_empty_Library
     [App_add_book 1 ''Dune'' ''Herbert'' 2, App_add_member 1 ''Alice'',
      App_borrow_book 1 ''Dune'', App_borrow_book 1 ''Dune''])) = [[1, 1]]"
  by (simp add: app_empty_Library_def app_add_book_def app_Library_add_book_def app_add_member_def
      app_Library_add_member_def app_new_Book_def app_new_Member_def app_borrow_book_def
      get_member_def search_book_def Member_borrow_book_def)

text \<open>
  C3, amended. In a consistent state of \<^verbatim>\<open>Web.py\<close>, when the member and the book are
  found and the book is not borrowed, or is borrowed by someone else, or is not in the
  member's list, the return fails with "This member does not hold that book." and the
  state is the one it was given. In \<^verbatim>\<open>app.py\<close>, when the member and the book are found
  and the book is not in the member's list, the return raises nothing and the state is
  the one it was given.
\<close>

theorem return_not_held:
  "(consistent s \<and> resolve_member s mkey bn = Some (mk, m) \<and> resolve_book s bkey bt = Some (bk, b) \<and>
      (\<not> is_borrowed b \<or> borrower_id b \<noteq> Some (member_id m) \<or>
       book_id b \<notin> set (borrowed_book_ids m)) \<longrightarrow>
      return_book s now stamp mkey bkey bt bn = ((False, Member_does_not_hold_that_book), s)) \<and>
   (get_member a mid = Inr am \<and> search_book a t = Inr (i, ab) \<and>
      app_book_id ab \<notin> set (borrowed_books am) \<longrightarrow>
      app_return_book a mid t = (Inr (), a))"
proof (intro conjI impI)
  assume a: "consistent s \<and> resolve_member s mkey bn = Some (mk, m) \<and>
      resolve_book s bkey bt = Some (bk, b) \<and>
      (\<not> is_borrowed b \<or> borrower_id b \<noteq> Some (member_id m) \<or>
       book_id b \<notin> set (borrowed_book_ids m))"
  then have c: "consistent s" and rm: "resolve_member s mkey bn = Some (mk, m)"
    and rb: "resolve_book s bkey bt = Some (bk, b)" by simp_all
  note p = consistent_parts[OF c]
  have sm: "map_of (members s) mk = Some m" by (rule resolve_member_stored[OF p(1) rm])
  have sb: "map_of (books s) bk = Some b" by (rule resolve_book_stored[OF p(1) rb])
  have "\<not> is_borrowed b \<or> borrower_id b \<noteq> Some (member_id m)"
  proof (rule ccontr)
    assume "\<not> (\<not> is_borrowed b \<or> borrower_id b \<noteq> Some (member_id m))"
    then have h: "is_borrowed b" "borrower_id b = Some (member_id m)" by simp_all
    from p(4)[OF sb h(1)] obtain j m' where
      j: "borrower_id b = Some j" "map_of (members s) j = Some m'" "bk \<in> set (borrowed_book_ids m')"
      by blast
    from j(1) h(2) p(3)[OF sm] have "j = mk" by simp
    with j(2,3) sm p(2)[OF sb] have "book_id b \<in> set (borrowed_book_ids m)" by simp
    with a h show False by simp
  qed
  with rm rb show "return_book s now stamp mkey bkey bt bn = ((False, Member_does_not_hold_that_book), s)"
    by (auto simp: return_book_def)
next
  assume a: "get_member a mid = Inr am \<and> search_book a t = Inr (i, ab) \<and>
      app_book_id ab \<notin> set (borrowed_books am)"
  then have m: "map_of (app_members a) mid = Some am"
    by (auto simp: get_member_def split: option.splits)
  from a have i: "ab = app_books a ! i" by (auto dest: search_book_found)
  have "AList.update mid am (app_members a) = app_members a"
    using m by (rule update_triv)
  with a i show "app_return_book a mid t = (Inr (), a)"
    by (simp add: app_return_book_def Member_return_book_def)
qed

lemma consistent_dune: "consistent dune_library" "consistent dune_borrowed"
proof -
  show "consistent dune_library"
    using consistent_run[OF consistent_empty] unfolding dune_library_run[symmetric] .
  show "consistent dune_borrowed"
    using consistent_run[OF consistent_empty] unfolding dune_borrowed_run[symmetric] .
qed

lemma app_dune_resolve:
  "get_member app_dune_library 1 = Inr (app_new_Member 1 ''Alice'')"
  "search_book app_dune_library ''Dune'' = Inr (0, app_new_Book 1 ''Dune'' ''Herbert'' 1 None)"
  by (simp_all add: get_member_def search_book_def app_dune_library_def app_new_Book_def)

theorem return_not_held_witness:
  "consistent dune_library \<and>
   resolve_member dune_library ''M1'' False = Some (''M1'', new_Member ''M1'' ''Alice'') \<and>
   resolve_book dune_library ''B1'' False = Some (''B1'', new_Book ''B1'' ''Dune'' ''Herbert'') \<and>
   book_id (new_Book ''B1'' ''Dune'' ''Herbert'') \<notin>
     set (borrowed_book_ids (new_Member ''M1'' ''Alice'')) \<and>
   return_book dune_library 5 5 ''M1'' ''B1'' False False =
     ((False, Member_does_not_hold_that_book), dune_library) \<and>
   get_member app_dune_library 1 = Inr (app_new_Member 1 ''Alice'') \<and>
   search_book app_dune_library ''Dune'' = Inr (0, app_new_Book 1 ''Dune'' ''Herbert'' 1 None) \<and>
   app_book_id (app_new_Book 1 ''Dune'' ''Herbert'' 1 None) \<notin>
     set (borrowed_books (app_new_Member 1 ''Alice'')) \<and>
   app_return_book app_dune_library 1 ''Dune'' = (Inr (), app_dune_library)"
proof -
  have n: "book_id (new_Book ''B1'' ''Dune'' ''Herbert'') \<notin>
     set (borrowed_book_ids (new_Member ''M1'' ''Alice''))"
    by (simp add: new_Member_def)
  have an: "app_book_id (app_new_Book 1 ''Dune'' ''Herbert'' 1 None) \<notin>
     set (borrowed_books (app_new_Member 1 ''Alice''))"
    by (simp add: app_new_Member_def)
  have 1: "return_book dune_library 5 5 ''M1'' ''B1'' False False =
     ((False, Member_does_not_hold_that_book), dune_library)"
    by (rule return_not_held[THEN conjunct1, rule_format, OF conjI, OF consistent_dune(1),
          OF conjI, OF dune_resolve(1), OF conjI, OF dune_resolve(2)])
      (intro disjI2 n)
  have 2: "app_return_book app_dune_library 1 ''Dune'' = (Inr (), app_dune_library)"
    by (rule return_not_held[THEN conjunct2, rule_format, OF conjI, OF app_dune_resolve(1),
          OF conjI, OF app_dune_resolve(2) an])
  from consistent_dune(1) dune_resolve n 1 app_dune_resolve an 2 show ?thesis
    by (intro conjI)
qed

text \<open>
  In \<^verbatim>\<open>app.py\<close> the return of a book the member never borrowed does not fail.
\<close>

theorem app_return_counterexample:
  "borrowed_books (app_new_Member 1 ''Alice'') = [] \<and>
   get_member app_dune_library 1 = Inr (app_new_Member 1 ''Alice'') \<and>
   search_book app_dune_library ''Dune'' = Inr (0, app_new_Book 1 ''Dune'' ''Herbert'' 1 None) \<and>
   fst (app_return_book app_dune_library 1 ''Dune'') = Inr ()"
  by (simp add: app_return_book_def app_dune_resolve Member_return_book_def app_new_Member_def)

lemma first_titled_update:
  "i < length bs \<Longrightarrow> app_title b' = app_title (bs ! i) \<Longrightarrow>
     first_titled (bs[i := b']) t = first_titled bs t"
proof (induction bs arbitrary: i)
  case Nil
  then show ?case by simp
next
  case (Cons b bs)
  then show ?case by (cases i) simp_all
qed

lemma remove1_appended: "mset (remove1 x (xs @ [x])) = mset xs"
  by simp

lemma app_borrow_then_return:
  assumes cb: "copies_bounded a" and bo: "app_borrow_book a mid t = (Inr (), a1)"
  shows "\<exists>m L. get_member a mid = Inr m \<and> mset L = mset (borrowed_books m) \<and>
     app_return_book a1 mid t =
       (Inr (), a\<lparr>app_members := AList.update mid (m\<lparr>borrowed_books := L\<rparr>) (app_members a)\<rparr>)"
proof -
  from bo obtain m where gm: "get_member a mid = Inr m"
    by (cases "get_member a mid") (simp_all add: app_borrow_book_def)
  from bo gm obtain i b where sb: "search_book a t = Inr (i, b)"
    by (cases "search_book a t") (auto simp: app_borrow_book_def)
  from sb have i: "i < length (app_books a)" "b = app_books a ! i"
    by (auto dest: search_book_found)
  from bo gm sb have pos: "\<not> available_copies b \<le> 0"
    by (auto simp: app_borrow_book_def Member_borrow_book_def split: if_splits)
  let ?b1 = "b\<lparr>available_copies := available_copies b - 1\<rparr>"
  let ?m1 = "m\<lparr>borrowed_books := borrowed_books m @ [app_book_id b]\<rparr>"
  from bo gm sb pos have a1: "a1 = a\<lparr>app_books := (app_books a)[i := ?b1],
      app_members := AList.update mid ?m1 (app_members a)\<rparr>"
    by (simp add: app_borrow_book_def Member_borrow_book_def)
  have gm1: "get_member a1 mid = Inr ?m1"
    by (simp add: a1 get_member_def update_conv')
  from sb have ft: "first_titled (app_books a) t = Some i"
    by (auto simp: search_book_def split: option.splits)
  have "first_titled ((app_books a)[i := ?b1]) t = Some i"
    using i ft by (simp add: first_titled_update)
  then have sb1: "search_book a1 t = Inr (i, ?b1)"
    using i by (simp add: a1 search_book_def)
  have "b \<in> set (app_books a)" using i by simp
  with cb have "available_copies b \<le> total_copies b" by (simp add: copies_bounded_def)
  then have restored: "?b1\<lparr>available_copies := min (available_copies ?b1 + 1) (total_copies ?b1)\<rparr> = b"
    by simp
  let ?L = "remove1 (app_book_id b) (borrowed_books m @ [app_book_id b])"
  have "app_return_book a1 mid t =
      (Inr (), a1\<lparr>app_books := (app_books a1)[i := b],
         app_members := AList.update mid (?m1\<lparr>borrowed_books := ?L\<rparr>) (app_members a1)\<rparr>)"
    using restored by (simp add: app_return_book_def gm1 sb1 Member_return_book_def)
  also have "a1\<lparr>app_books := (app_books a1)[i := b],
         app_members := AList.update mid (?m1\<lparr>borrowed_books := ?L\<rparr>) (app_members a1)\<rparr> =
      a\<lparr>app_members := AList.update mid (m\<lparr>borrowed_books := ?L\<rparr>) (app_members a)\<rparr>"
    using i by (simp add: a1)
  finally have "app_return_book a1 mid t =
      (Inr (), a\<lparr>app_members := AList.update mid (m\<lparr>borrowed_books := ?L\<rparr>) (app_members a)\<rparr>)" .
  moreover have "mset ?L = mset (borrowed_books m)" by (rule remove1_appended)
  ultimately show ?thesis using gm by blast
qed

lemma borrow_then_return:
  assumes c: "consistent s" and bo: "borrow_book s now stamp mkey bkey bt bn = ((True, msg), s1)"
  shows "\<exists>t f e1 e2. return_book s1 now' stamp' mkey bkey bt bn =
       ((True, Returned t f), s\<lparr>history := history s @ [e1, e2]\<rparr>) \<and>
     records e1 (Borrow_book now stamp mkey bkey bt bn) \<and>
     records e2 (Return_book now' stamp' mkey bkey bt bn)"
proof -
  note p = consistent_parts[OF c]
  let ?due = "strftime (now + timedelta_days 7)"
  from borrow_book_success[OF bo] obtain mk m bk b where
    rm: "resolve_member s mkey bn = Some (mk, m)" and rb: "resolve_book s bkey bt = Some (bk, b)"
    and nb: "\<not> is_borrowed b"
    and s1: "s1 = s\<lparr>books := AList.update bk (b\<lparr>is_borrowed := True, borrower_id := Some (member_id m),
           due_date := Some ?due\<rparr>) (books s),
           members := AList.update mk (m\<lparr>borrowed_book_ids := borrowed_book_ids m @ [book_id b]\<rparr>) (members s),
           history := history s @ [Borrow_entry (strftime stamp) (book_id b) (member_id m) ?due]\<rparr>"
    by blast
  let ?b1 = "b\<lparr>is_borrowed := True, borrower_id := Some (member_id m), due_date := Some ?due\<rparr>"
  let ?m1 = "m\<lparr>borrowed_book_ids := borrowed_book_ids m @ [book_id b]\<rparr>"
  let ?e1 = "Borrow_entry (strftime stamp) (book_id b) (member_id m) ?due"
  let ?f = "fine_calculation now' (Some ?due)"
  let ?e2 = "Return_entry (strftime stamp') (book_id b) (member_id m) ?f"
  have sm: "map_of (members s) mk = Some m" by (rule resolve_member_stored[OF p(1) rm])
  have sb: "map_of (books s) bk = Some b" by (rule resolve_book_stored[OF p(1) rb])
  have rm1: "resolve_member s1 mkey bn = Some (mk, ?m1)"
    unfolding s1 by (rule resolve_member_update[OF p(1) rm]) simp
  have rb1: "resolve_book s1 bkey bt = Some (bk, ?b1)"
    unfolding s1 by (rule resolve_book_update[OF p(1) rb]) simp
  have ret: "return_book s1 now' stamp' mkey bkey bt bn =
     ((True, Returned (title ?b1) (fine_calculation now' (due_date ?b1))),
      s1\<lparr>books := AList.update bk (?b1\<lparr>is_borrowed := False, borrower_id := None, due_date := None\<rparr>) (books s1),
           members := AList.update mk (?m1\<lparr>borrowed_book_ids := remove1 (book_id ?b1) (borrowed_book_ids ?m1)\<rparr>) (members s1),
           history := history s1 @ [Return_entry (strftime stamp') (book_id ?b1) (member_id ?m1) (fine_calculation now' (due_date ?b1))]\<rparr>)"
    by (rule return_book_held[OF rm1 rb1]) simp_all
  have idle: "borrower_id b = None" "due_date b = None"
    using p(7)[OF sb nb] by simp_all
  have b_back: "?b1\<lparr>is_borrowed := False, borrower_id := None, due_date := None\<rparr> = b"
    using nb idle by simp
  have "book_id b \<notin> set (borrowed_book_ids m)"
  proof
    assume "book_id b \<in> set (borrowed_book_ids m)"
    then have "bk \<in> set (borrowed_book_ids m)" using p(2)[OF sb] by simp
    from p(6)[OF sm this] sb nb show False by simp
  qed
  then have m_back: "?m1\<lparr>borrowed_book_ids := remove1 (book_id ?b1) (borrowed_book_ids ?m1)\<rparr> = m"
    by (simp add: remove1_append)
  have books_back: "AList.update bk b (books s1) = books s"
    unfolding s1 using sb by (simp add: update_triv)
  have members_back: "AList.update mk m (members s1) = members s"
    unfolding s1 using sm by (simp add: update_triv)
  have "return_book s1 now' stamp' mkey bkey bt bn =
     ((True, Returned (title b) ?f), s\<lparr>history := history s @ [?e1, ?e2]\<rparr>)"
    unfolding ret b_back m_back books_back members_back by (simp add: s1)
  moreover have "records ?e1 (Borrow_book now stamp mkey bkey bt bn)"
    "records ?e2 (Return_book now' stamp' mkey bkey bt bn)" by simp_all
  ultimately show ?thesis by blast
qed

lemma app_dune_borrow:
  "app_borrow_book app_dune_library 1 ''Dune'' = (Inr (), app_dune_borrowed)"
  unfolding app_borrow_book_def app_dune_resolve
  by (simp add: Member_borrow_book_def app_dune_library_def app_dune_borrowed_def
      app_new_Book_def app_new_Member_def)

lemma app_dune_bounded: "copies_bounded app_dune_library"
  by (simp add: copies_bounded_def app_dune_library_def app_new_Book_def)

text \<open>
  C5. In a consistent state of \<^verbatim>\<open>Web.py\<close>, after a successful borrow the return of
  the same book by the same member succeeds, and the state after it is the state before
  the borrow with two more history entries, the record of the borrow and the record of
  the return. In \<^verbatim>\<open>app.py\<close>, from a state where no book has more available than
  total copies, after a successful borrow the return succeeds and the state after it is
  the state before the borrow, but for the order of the member's list of borrowed books.
\<close>

theorem borrow_return_restores:
  "(consistent s \<and> borrow_book s now stamp mkey bkey bt bn = ((True, msg), s1) \<longrightarrow>
      (\<exists>t f e1 e2. return_book s1 now' stamp' mkey bkey bt bn =
          ((True, Returned t f), s\<lparr>history := history s @ [e1, e2]\<rparr>) \<and>
        records e1 (Borrow_book now stamp mkey bkey bt bn) \<and>
        records e2 (Return_book now' stamp' mkey bkey bt bn))) \<and>
   (copies_bounded a \<and> app_borrow_book a mid ti = (Inr (), a1) \<longrightarrow>
      (\<exists>m L. get_member a mid = Inr m \<and> mset L = mset (borrowed_books m) \<and>
         app_return_book a1 mid ti =
           (Inr (), a\<lparr>app_members := AList.update mid (m\<lparr>borrowed_books := L\<rparr>) (app_members a)\<rparr>)))"
  using borrow_then_return app_borrow_then_return by blast

theorem borrow_return_restores_witness:
  "consistent dune_library \<and>
   borrow_book dune_library 0 0 ''M1'' ''B1'' False False =
     ((True, Borrowed ''Alice'' ''Dune'' (Minute 10080)), dune_borrowed) \<and>
   (\<exists>t f e1 e2. return_book dune_borrowed 9 9 ''M1'' ''B1'' False False =
       ((True, Returned t f), dune_library\<lparr>history := history dune_library @ [e1, e2]\<rparr>) \<and>
     records e1 (Borrow_book 0 0 ''M1'' ''B1'' False False) \<and>
     records e2 (Return_book 9 9 ''M1'' ''B1'' False False)) \<and>
   copies_bounded app_dune_library \<and>
   app_borrow_book app_dune_library 1 ''Dune'' = (Inr (), app_dune_borrowed) \<and>
   (\<exists>m L. get_member app_dune_library 1 = Inr m \<and> mset L = mset (borrowed_books m) \<and>
      app_return_book app_dune_borrowed 1 ''Dune'' =
        (Inr (), app_dune_library\<lparr>app_members :=
           AList.update 1 (m\<lparr>borrowed_books := L\<rparr>) (app_members app_dune_library)\<rparr>))"
proof -
  note w = borrow_return_restores[THEN conjunct1, rule_format, OF conjI, OF consistent_dune(1) dune_borrow]
  note a = borrow_return_restores[THEN conjunct2, rule_format, OF conjI, OF app_dune_bounded app_dune_borrow]
  from consistent_dune(1) dune_borrow w[of 9 9] app_dune_bounded app_dune_borrow a
  show ?thesis by (intro conjI)
qed







section \<open>Loading\<close>

lemma find_in_set: "find P xs = Some x \<Longrightarrow> x \<in> set xs"
  by (induction xs) (auto split: if_splits)

lemma call_with_quoted:
  assumes "call_with ks rq v = Inl (e, q)"
  shows "q = [] \<or> q \<in> fst ` set (dict_items v)"
proof (cases v)
  case (JDict kw)
  show ?thesis
  proof (cases "find (\<lambda>(k, x). k \<notin> set ks) kw")
    case None
    with assms JDict show ?thesis by (simp add: call_with_def split: if_splits)
  next
    case (Some p)
    obtain k x where p: "p = (k, x)" by (cases p)
    from Some p have "(k, x) \<in> set kw" by (auto dest: find_in_set)
    moreover from assms JDict Some p have "q = k" by (simp add: call_with_def)
    ultimately show ?thesis using JDict by force
  qed
qed (use assms in \<open>simp_all add: call_with_def\<close>)

lemma construct_all_quoted:
  "construct_all ks rq items = Inl (e, q) \<Longrightarrow>
     q = [] \<or> q \<in> set (concat (map (\<lambda>(key, v). map fst (dict_items v)) items))"
proof (induction items)
  case Nil
  then show ?case by simp
next
  case (Cons item items)
  obtain key v where item: "item = (key, v)" by (cases item)
  show ?case
  proof (cases "call_with ks rq v")
    case (Inl r)
    with Cons.prems item have "call_with ks rq v = Inl (e, q)" by simp
    from call_with_quoted[OF this] item show ?thesis by auto
  next
    case (Inr kw)
    with Cons.prems item have "construct_all ks rq items = Inl (e, q)"
      by (simp split: sum.splits)
    from Cons.IH[OF this] show ?thesis by auto
  qed
qed

lemma load_data_try_quoted:
  assumes "load_data_try f = Inl (e, q)"
  shows "q = [] \<or> q \<in> set (given_keywords f)"
proof (cases f)
  case Missing
  with assms show ?thesis by (simp add: load_data_try_def)
next
  case Unreadable
  with assms show ?thesis by (simp add: load_data_try_def)
next
  case (Parsed v)
  show ?thesis
  proof (cases "\<exists>d. v = JDict d")
    case False
    have "load_data_try (Parsed v) = Inr empty_Loaded"
      using False
      by (cases v) (simp_all add: load_data_try_def dict_get_def ascii_def empty_Loaded_def)
    with assms Parsed show ?thesis by simp
  next
    case True
    then obtain d where v: "v = JDict d" by blast
    let ?bs = "dict_get d (ascii ''books'') (JDict [])"
    let ?ms = "dict_get d (ascii ''members'') (JDict [])"
    have kw: "given_keywords f = concat (map (\<lambda>(key, v). map fst (dict_items v))
        (dict_items ?bs @ dict_items ?ms))"
      by (simp add: given_keywords_def Parsed v)
    show ?thesis
    proof (cases "construct_all Book_keywords Book_required (dict_items ?bs)")
      case (Inl r)
      show ?thesis
      proof (cases ?bs)
        case (JDict bs)
        with assms Parsed v Inl have "construct_all Book_keywords Book_required bs = Inl (e, q)"
          by (simp add: load_data_try_def)
        from construct_all_quoted[OF this] JDict show ?thesis
          unfolding kw by auto
      qed (use assms Parsed v in \<open>simp_all add: load_data_try_def\<close>)
    next
      case (Inr bks)
      show ?thesis
      proof (cases ?bs)
        case bd: (JDict bs)
        show ?thesis
        proof (cases ?ms)
          case (JDict ms)
          with assms Parsed v Inr bd
          have "construct_all Member_keywords Member_required ms = Inl (e, q)"
            by (simp add: load_data_try_def split: sum.splits)
          from construct_all_quoted[OF this] JDict show ?thesis
            unfolding kw by auto
        qed (use assms Parsed v Inr bd in \<open>simp_all add: load_data_try_def\<close>)
      qed (use assms Parsed v in \<open>simp_all add: load_data_try_def\<close>)
    qed
  qed
qed

lemma load_data_print_ok:
  assumes "load_data_try f = Inl (e, q)" "list_all enc q"
  shows "load_data enc f = Inr empty_Loaded"
  using assms by (simp add: load_data_def)

lemma load_data_keywords_ok:
  assumes "list_all (list_all enc) (given_keywords f)"
  shows "\<exists>s. load_data enc f = Inr s"
proof (cases "load_data_try f")
  case (Inl r)
  obtain e q where r: "r = (e, q)" by (cases r)
  from load_data_try_quoted[of f e q] Inl r assms have "list_all enc q"
    by (auto simp: list_all_iff)
  with Inl r show ?thesis by (simp add: load_data_def)
next
  case (Inr s)
  then show ?thesis by (simp add: load_data_def)
qed

text \<open>
  C8, amended. When the store file is missing, \<^verbatim>\<open>load_data\<close> of \<^verbatim>\<open>Web.py\<close> and
  \<^verbatim>\<open>load_from_file\<close> of \<^verbatim>\<open>app.py\<close> return empty collections. When the body of the
  \<^verbatim>\<open>try\<close> statement of \<^verbatim>\<open>load_data\<close> raises (the file cannot be read or parsed, a
  value is no dictionary where one is needed, a constructor rejects its arguments) and
  standard output can encode the text that the message repeats from the document,
  \<^verbatim>\<open>load_data\<close> returns empty collections; hence it raises on no document whose
  keyword-argument keys standard output can encode.
\<close>

theorem load_missing_or_malformed:
  "load_data enc Missing = Inr empty_Loaded \<and>
   (load_data_try f = Inl (e, q) \<and> list_all enc q \<longrightarrow> load_data enc f = Inr empty_Loaded) \<and>
   (list_all (list_all enc) (given_keywords fa) \<longrightarrow> (\<exists>s. load_data enc fa = Inr s)) \<and>
   load_from_file Missing Missing = Inr \<lparr>app_loaded_books = [], app_loaded_members = []\<rparr>"
proof (intro conjI impI)
  show "load_data enc Missing = Inr empty_Loaded"
    by (simp add: load_data_def load_data_try_def)
next
  assume "load_data_try f = Inl (e, q) \<and> list_all enc q"
  then show "load_data enc f = Inr empty_Loaded"
    using load_data_print_ok by blast
next
  assume "list_all (list_all enc) (given_keywords fa)"
  then show "\<exists>s. load_data enc fa = Inr s" by (rule load_data_keywords_ok)
next
  show "load_from_file Missing Missing = Inr \<lparr>app_loaded_books = [], app_loaded_members = []\<rparr>"
    by (simp add: load_from_file_def app_load_books_def app_load_members_def)
qed


text \<open>
  A books file that holds an empty text and a members file that holds an empty
  dictionary give \<^verbatim>\<open>load_from_file\<close> nothing to iterate over.
\<close>

lemma load_from_file_nothing_to_iterate:
  "load_from_file (Parsed (JStr [])) (Parsed (JDict [])) =
     Inr \<lparr>app_loaded_books = [], app_loaded_members = []\<rparr>"
  by (simp add: load_from_file_def app_load_books_def app_load_members_def)

lemma pages_store:
  "load_data_try (Parsed (JDict [(ascii ''books'', JDict [(ascii ''B1'',
      JDict [(ascii ''title'', JStr (ascii ''Dune'')), (ascii ''pages'', JInt 412)])])])) =
     Inl (TypeError, ascii ''pages'')"
  "list_all utf8 (ascii ''pages'')"
  "list_all (list_all utf8) (given_keywords (Parsed (JDict [(ascii ''books'', JDict [(ascii ''B1'',
      JDict [(ascii ''title'', JStr (ascii ''Dune'')), (ascii ''pages'', JInt 412)])])])))"
  by (simp_all add: load_data_try_def dict_get_def call_with_def Book_keywords_def
      Book_required_def given_keywords_def ascii_def utf8_def)

theorem load_missing_or_malformed_witness:
  "load_data_try Unreadable = Inl (Reading_error, []) \<and> list_all utf8 [] \<and>
   load_data utf8 Unreadable = Inr empty_Loaded \<and>
   load_data_try (Parsed (JDict [(ascii ''books'', JDict [(ascii ''B1'',
      JDict [(ascii ''title'', JStr (ascii ''Dune'')), (ascii ''pages'', JInt 412)])])])) =
     Inl (TypeError, ascii ''pages'') \<and>
   list_all utf8 (ascii ''pages'') \<and>
   load_data utf8 (Parsed (JDict [(ascii ''books'', JDict [(ascii ''B1'',
      JDict [(ascii ''title'', JStr (ascii ''Dune'')), (ascii ''pages'', JInt 412)])])])) =
     Inr empty_Loaded \<and>
   list_all (list_all utf8) (given_keywords (Parsed (JDict [(ascii ''books'', JDict [(ascii ''B1'',
      JDict [(ascii ''title'', JStr (ascii ''Dune'')), (ascii ''pages'', JInt 412)])])]))) \<and>
   (\<exists>s. load_data utf8 (Parsed (JDict [(ascii ''books'', JDict [(ascii ''B1'',
      JDict [(ascii ''title'', JStr (ascii ''Dune'')), (ascii ''pages'', JInt 412)])])])) = Inr s)"
proof -
  note t = load_missing_or_malformed
  have u: "load_data_try Unreadable = Inl (Reading_error, [])"
    by (simp add: load_data_try_def)
  have n: "list_all utf8 []" by simp
  have 1: "load_data utf8 Unreadable = Inr empty_Loaded"
    by (rule t[THEN conjunct2, THEN conjunct1, rule_format, OF conjI, OF u n])
  have 2: "load_data utf8 (Parsed (JDict [(ascii ''books'', JDict [(ascii ''B1'',
      JDict [(ascii ''title'', JStr (ascii ''Dune'')), (ascii ''pages'', JInt 412)])])])) =
     Inr empty_Loaded"
    by (rule t[THEN conjunct2, THEN conjunct1, rule_format, OF conjI, OF pages_store(1,2)])
  have 3: "\<exists>s. load_data utf8 (Parsed (JDict [(ascii ''books'', JDict [(ascii ''B1'',
      JDict [(ascii ''title'', JStr (ascii ''Dune'')), (ascii ''pages'', JInt 412)])])])) = Inr s"
    by (rule t[THEN conjunct2, THEN conjunct2, THEN conjunct1, rule_format, OF pages_store(3)])
  from u n 1 pages_store 2 3 show ?thesis
    by (intro conjI)
qed

text \<open>
  With strict UTF-8 output, a book dictionary with the key U+D800 makes \<^verbatim>\<open>load_data\<close>
  raise \<^verbatim>\<open>UnicodeEncodeError\<close> from its handler. An unreadable books file, a books
  file that holds the number 5 and a member dictionary without identifier make
  \<^verbatim>\<open>load_from_file\<close> raise.
\<close>

theorem load_raises_counterexample:
  "load_data utf8 (Parsed (JDict [(ascii ''books'', JDict [(ascii ''B1'',
      JDict [(ascii ''book_id'', JStr (ascii ''B1'')), (ascii ''title'', JStr (ascii ''Dune'')),
        (ascii ''author'', JStr (ascii ''Herbert'')), ([55296], JNull)])])])) =
     Inl UnicodeEncodeError \<and>
   load_from_file Unreadable Missing = Inl Reading_error \<and>
   load_from_file (Parsed (JInt 5)) Missing = Inl TypeError \<and>
   load_from_file Missing (Parsed (JList [JDict []])) = Inl KeyError"
  by (simp add: load_data_def load_data_try_def dict_get_def call_with_def Book_keywords_def
      Book_required_def ascii_def utf8_def load_from_file_def app_load_books_def
      app_load_members_def Member_from_dict_def)

section \<open>Lookups by title and by name\<close>














end
